theory Spec2Isabelle
  imports Main
begin

section \<open>Data model of \<open>storage/storage-s3v.go\<close>\<close>

text \<open>
  Go pointers (\<open>*string\<close>, \<open>*[]byte\<close>, \<open>*time.Time\<close>, \<open>*bool\<close>, \<open>*int64\<close>) are options:
  \<open>None\<close> is \<open>nil\<close>. Go strings and byte slices are byte lists. An \<open>error\<close> is opaque to
  this module (it is only compared with \<open>nil\<close>), so it is a plain string here and
  \<open>err option\<close> is Go's \<open>error\<close> with \<open>None\<close> for \<open>nil\<close>.
\<close>

type_synonym bytes = "char list"
type_synonym err = string
type_synonym duration = int
type_synonym time = int

text \<open>
  The \<open>Object\<close> struct is declared elsewhere in the package; these are the fields that
  this file reads or writes. \<open>Metadata\<close> (\<open>map[string]*string\<close>) is only ever copied
  as a whole.
\<close>

record Object =
  Key :: "string option"
  VersionId :: "string option"
  ETag :: "string option"
  Mtime :: "time option"
  IsLatest :: "bool option"
  Content :: "bytes option"
  ContentType :: "string option"
  ContentDisposition :: "string option"
  ContentEncoding :: "string option"
  ContentLanguage :: "string option"
  ACL :: "string option"
  Metadata :: "(string \<times> string) list"
  CacheControl :: "string option"

text \<open>
  \<open>ratelimit.Bucket\<close>: the always-permitting bucket of \<open>ratelimit.NewFakeBucket()\<close>, or
  a token bucket with a rate. Only the identity of the instance matters below.
\<close>

datatype rl_bucket = FakeBucket | RateBucket int

text \<open>
  \<open>S3vStorage\<close>. The handles \<open>awsSvc\<close>, \<open>awsSession\<close> and \<open>ctx\<close> stand for the remote
  store; its behaviour is the \<open>env\<close> record below. \<open>retryCnt\<close> is a Go \<open>uint\<close>; the loop
  counter that is compared with it starts at 0 and is incremented only while it is
  strictly below \<open>retryCnt\<close>, so it never wraps and both are naturals here.
\<close>

record S3vStorage =
  awsBucket :: "string option"
  prefix :: string
  keysPerReq :: int
  retryCnt :: nat
  retryInterval :: duration
  listMarker :: "string option"
  rlBucket :: rl_bucket

subsection \<open>Requests and responses of the remote store client\<close>

text \<open>
  The SDK's structs, with the fields this file sets or reads and with the other
  pagination markers: a list request has a \<open>KeyMarker\<close> beside its \<open>VersionIdMarker\<close>
  (this file never sets it, so it is \<open>nil\<close>), and a page has, beside \<open>KeyMarker\<close> and
  \<open>VersionIdMarker\<close>, the markers \<open>NextKeyMarker\<close> and \<open>NextVersionIdMarker\<close> that the
  SDK's paginator sends with its request for the next page (this file never reads them).
\<close>

record ListObjectVersionsInput =
  lvi_Bucket :: "string option"
  lvi_Prefix :: "string option"
  lvi_MaxKeys :: "int option"
  lvi_EncodingType :: "string option"
  lvi_KeyMarker :: "string option"
  lvi_VersionIdMarker :: "string option"

record ObjectVersion =
  ov_Key :: "string option"
  ov_VersionId :: "string option"
  ov_ETag :: "string option"
  ov_LastModified :: "time option"
  ov_IsLatest :: "bool option"

record ListObjectVersionsOutput =
  lvo_Versions :: "ObjectVersion list"
  lvo_KeyMarker :: "string option"
  lvo_VersionIdMarker :: "string option"
  lvo_NextKeyMarker :: "string option"
  lvo_NextVersionIdMarker :: "string option"

text \<open>
  An upload body: \<open>bytes.NewReader(b)\<close>, or a reader wrapped by
  \<open>ratelimit.NewReadSeeker(r, bucket)\<close>.
\<close>

datatype reader = BytesReader bytes | RLReadSeeker reader rl_bucket

record PutObjectInput =
  poi_Bucket :: "string option"
  poi_Key :: "string option"
  poi_Body :: reader
  poi_ContentType :: "string option"
  poi_ContentDisposition :: "string option"
  poi_ContentEncoding :: "string option"
  poi_ContentLanguage :: "string option"
  poi_ACL :: "string option"
  poi_Metadata :: "(string \<times> string) list"
  poi_CacheControl :: "string option"

record GetObjectInput =
  goi_Bucket :: "string option"
  goi_Key :: "string option"
  goi_VersionId :: "string option"

text \<open>
  A response body (\<open>io.ReadCloser\<close>) is the bytes it delivers before it ends, and how it
  ends: \<open>None\<close> for end of file, \<open>Some e\<close> for a read error. A \<open>nil\<close> body is \<open>None\<close>.
\<close>

type_synonym body = "bytes \<times> err option"

record GetObjectOutput =
  goo_Body :: "body option"
  goo_ContentLength :: "int option"
  goo_ContentType :: "string option"
  goo_ContentDisposition :: "string option"
  goo_ContentEncoding :: "string option"
  goo_ContentLanguage :: "string option"
  goo_ETag :: "string option"
  goo_Metadata :: "(string \<times> string) list"
  goo_LastModified :: "time option"
  goo_CacheControl :: "string option"

record HeadObjectInput =
  hoi_Bucket :: "string option"
  hoi_Key :: "string option"
  hoi_VersionId :: "string option"

record HeadObjectOutput =
  hoo_ContentType :: "string option"
  hoo_ContentDisposition :: "string option"
  hoo_ContentEncoding :: "string option"
  hoo_ContentLanguage :: "string option"
  hoo_ETag :: "string option"
  hoo_Metadata :: "(string \<times> string) list"
  hoo_LastModified :: "time option"
  hoo_CacheControl :: "string option"

record DeleteObjectInput =
  doi_Bucket :: "string option"
  doi_Key :: "string option"
  doi_VersionId :: "string option"

text \<open>
  What one call of the SDK's paginator meets on the wire: a page request fails, or it
  returns a page that has no next page, or a page that has one, followed by what the next
  request meets.
\<close>

datatype pager_run =
  PageFail err
| PageLast ListObjectVersionsOutput
| PageMore ListObjectVersionsOutput pager_run

subsection \<open>Effects\<close>

text \<open>
  Every effect of the module is appended to a trace, in program order: a remote call
  with its input, a follow-up page request of the paginator, a send on the output
  channel, a write of the client's cursor, bytes passing through a rate limiter, a sleep.
  The \<open>Log.Debugf\<close> lines are left out. \<open>calls\<close> counts the remote calls issued so far;
  the remote store answers call number \<open>n\<close> as the \<open>env\<close> says. Every remote call
  returns, and every send on the output channel completes (a consumer takes the object).
\<close>

datatype event =
  EvListVersions ListObjectVersionsInput
| EvNextPage
| EvSend Object
| EvSetMarker "string option"
| EvPutObject PutObjectInput
| EvGetObject GetObjectInput
| EvHeadObject HeadObjectInput
| EvDeleteObject DeleteObjectInput
| EvLimit rl_bucket nat
| EvSleep duration

record world =
  calls :: nat
  trace :: "event list"

definition emit :: "event \<Rightarrow> world \<Rightarrow> world" where
  "emit e w = w\<lparr>trace := trace w @ [e]\<rparr>"

definition remote_call :: "event \<Rightarrow> world \<Rightarrow> world" where
  "remote_call e w = w\<lparr>calls := Suc (calls w), trace := trace w @ [e]\<rparr>"

definition time_Sleep :: "duration \<Rightarrow> world \<Rightarrow> world" where
  "time_Sleep d w = emit (EvSleep d) w"

text \<open>
  The collaborators that are not in this file: the package's \<open>strongEtag\<close> helper,
  \<open>filepath.Join\<close>, and the remote store, whose answer to a call depends on the number
  of the call and on its input. A Go call returning \<open>(result, err)\<close> returns a pair.
\<close>

record env =
  strongEtag :: "string option \<Rightarrow> string option"
  filepath_Join :: "string \<Rightarrow> string \<Rightarrow> string"
  list_pages :: "nat \<Rightarrow> ListObjectVersionsInput \<Rightarrow> pager_run"
  put_object :: "nat \<Rightarrow> PutObjectInput \<Rightarrow> err option"
  get_object :: "nat \<Rightarrow> GetObjectInput \<Rightarrow> GetObjectOutput \<times> err option"
  head_object :: "nat \<Rightarrow> HeadObjectInput \<Rightarrow> HeadObjectOutput \<times> err option"
  delete_object :: "nat \<Rightarrow> DeleteObjectInput \<Rightarrow> err option"

section \<open>\<open>url.QueryUnescape\<close>\<close>

text \<open>
  Go's \<open>net/url\<close>: a first pass checks that every \<open>%\<close> is followed by two hexadecimal
  digits and otherwise returns the empty string with an \<open>EscapeError\<close> that holds the
  offending (at most three) bytes; a second pass replaces \<open>%XY\<close> by the byte
  \<open>unhex X << 4 | unhex Y\<close> and \<open>+\<close> by a space.
\<close>

datatype url_error = EscapeError string

definition ishex :: "char \<Rightarrow> bool" where
  "ishex c = (let n = (of_char c :: nat) in
     (48 \<le> n \<and> n \<le> 57) \<or> (97 \<le> n \<and> n \<le> 102) \<or> (65 \<le> n \<and> n \<le> 70))"

definition unhex :: "char \<Rightarrow> nat" where
  "unhex c = (let n = (of_char c :: nat) in
     if 48 \<le> n \<and> n \<le> 57 then n - 48
     else if 97 \<le> n \<and> n \<le> 102 then n - 97 + 10
     else if 65 \<le> n \<and> n \<le> 70 then n - 65 + 10
     else 0)"

fun escape_error :: "string \<Rightarrow> url_error option" where
  "escape_error [] = None"
| "escape_error (c # cs) =
     (if c = CHR ''%'' then
        (case cs of
           a # b # rest \<Rightarrow>
             if ishex a \<and> ishex b then escape_error rest
             else Some (EscapeError (take 3 (c # cs)))
         | _ \<Rightarrow> Some (EscapeError (take 3 (c # cs))))
      else escape_error cs)"

fun unescape_bytes :: "string \<Rightarrow> string" where
  "unescape_bytes [] = []"
| "unescape_bytes (c # cs) =
     (if c = CHR ''%'' then
        (case cs of
           a # b # rest \<Rightarrow> char_of (unhex a * 16 + unhex b) # unescape_bytes rest
         | _ \<Rightarrow> [])
      else if c = CHR ''+'' then CHR '' '' # unescape_bytes cs
      else c # unescape_bytes cs)"

definition QueryUnescape :: "string \<Rightarrow> string \<times> url_error option" where
  "QueryUnescape s =
     (case escape_error s of
        Some e \<Rightarrow> ('''', Some e)
      | None \<Rightarrow> (unescape_bytes s, None))"

text \<open>\<open>aws.StringValue\<close>: the string behind the pointer, or the empty string for \<open>nil\<close>.\<close>

definition StringValue :: "string option \<Rightarrow> string" where
  "StringValue p = (case p of None \<Rightarrow> '''' | Some s \<Rightarrow> s)"

text \<open>\<open>aws.Int64Value\<close>: the number behind the pointer, or 0 for \<open>nil\<close>.\<close>

definition Int64Value :: "int option \<Rightarrow> int" where
  "Int64Value p = (case p of None \<Rightarrow> 0 | Some n \<Rightarrow> n)"

definition EncodingTypeUrl :: string where
  "EncodingTypeUrl = ''url''"

section \<open>The constructor\<close>

text \<open>
  \<open>NewS3vStorage\<close>, as far as the fields above go: the cursor starts \<open>nil\<close> and the rate
  limiter is the always-permitting one.
\<close>

definition NewS3vStorage :: "string \<Rightarrow> string \<Rightarrow> int \<Rightarrow> nat \<Rightarrow> duration \<Rightarrow> S3vStorage" where
  "NewS3vStorage bucketName pfx kpr rc ri =
     \<lparr>awsBucket = Some bucketName, prefix = pfx, keysPerReq = kpr, retryCnt = rc,
      retryInterval = ri, listMarker = None, rlBucket = FakeBucket\<rparr>"

section \<open>\<open>List\<close>\<close>

text \<open>
  The body of the \<open>for _, o := range p.Versions\<close> loop of \<open>listObjectsFn\<close>: the object that
  is sent for one version record. The fields the literal does not name are zero.
\<close>

definition version_object :: "env \<Rightarrow> ObjectVersion \<Rightarrow> Object" where
  "version_object E ov =
     \<lparr>Key = Some (fst (QueryUnescape (StringValue (ov_Key ov)))),
      VersionId = ov_VersionId ov,
      ETag = strongEtag E (ov_ETag ov),
      Mtime = ov_LastModified ov,
      IsLatest = ov_IsLatest ov,
      Content = None, ContentType = None, ContentDisposition = None,
      ContentEncoding = None, ContentLanguage = None, ACL = None,
      Metadata = [], CacheControl = None\<rparr>"

fun send_versions :: "env \<Rightarrow> ObjectVersion list \<Rightarrow> world \<Rightarrow> world" where
  "send_versions E [] w = w"
| "send_versions E (ov # ovs) w = send_versions E ovs (emit (EvSend (version_object E ov)) w)"

text \<open>
  \<open>listObjectsFn\<close>: send every version of the page, store the page's \<open>VersionIdMarker\<close>
  in the client, and answer whether paging goes on.
\<close>

definition listObjectsFn ::
  "env \<Rightarrow> ListObjectVersionsOutput \<Rightarrow> bool \<Rightarrow> S3vStorage \<times> world \<Rightarrow> (S3vStorage \<times> world) \<times> bool" where
  "listObjectsFn E p lastPage sw =
     (case sw of (st, w) \<Rightarrow>
        ((st\<lparr>listMarker := lvo_VersionIdMarker p\<rparr>,
          emit (EvSetMarker (lvo_VersionIdMarker p)) (send_versions E (lvo_Versions p) w)),
         \<not> lastPage))"

text \<open>
  The SDK's \<open>ListObjectVersionsPagesWithContext\<close>: \<open>for p.Next() { if !fn(page,
  !p.HasNextPage()) { break } }; return p.Err()\<close>. The first request carries the input;
  a request that fails ends the loop with its error; after a page without a next page,
  or when \<open>fn\<close> answers false, the loop ends without error.
\<close>

fun pages_loop ::
  "pager_run \<Rightarrow> (ListObjectVersionsOutput \<Rightarrow> bool \<Rightarrow> 'c \<times> world \<Rightarrow> ('c \<times> world) \<times> bool)
     \<Rightarrow> 'c \<times> world \<Rightarrow> ('c \<times> world) \<times> err option" where
  "pages_loop (PageFail e) fn cw = (cw, Some e)"
| "pages_loop (PageLast p) fn cw = (fst (fn p True cw), None)"
| "pages_loop (PageMore p rest) fn cw =
     (case fn p False cw of
        ((c', w'), cont) \<Rightarrow>
          if cont then pages_loop rest fn (c', emit EvNextPage w') else ((c', w'), None))"

definition ListObjectVersionsPagesWithContext ::
  "env \<Rightarrow> ListObjectVersionsInput
     \<Rightarrow> (ListObjectVersionsOutput \<Rightarrow> bool \<Rightarrow> 'c \<times> world \<Rightarrow> ('c \<times> world) \<times> bool)
     \<Rightarrow> 'c \<times> world \<Rightarrow> ('c \<times> world) \<times> err option" where
  "ListObjectVersionsPagesWithContext E input fn cw =
     (case cw of (c, w) \<Rightarrow>
        pages_loop (list_pages E (calls w) input) fn (c, remote_call (EvListVersions input) w))"

definition list_input :: "S3vStorage \<Rightarrow> ListObjectVersionsInput" where
  "list_input st =
     \<lparr>lvi_Bucket = awsBucket st,
      lvi_Prefix = Some (prefix st),
      lvi_MaxKeys = Some (keysPerReq st),
      lvi_EncodingType = Some EncodingTypeUrl,
      lvi_KeyMarker = None,
      lvi_VersionIdMarker = listMarker st\<rparr>"

lemma pages_loop_listObjectsFn_retryCnt:
  "pages_loop run (listObjectsFn E) (st, w) = ((st', w'), e) \<Longrightarrow>
     retryCnt st' = retryCnt st \<and> retryInterval st' = retryInterval st"
  by (induction run arbitrary: st w) (auto simp: listObjectsFn_def split: if_splits)

function List_loop :: "env \<Rightarrow> nat \<Rightarrow> S3vStorage \<times> world \<Rightarrow> (S3vStorage \<times> world) \<times> err option" where
  "List_loop E i (st, w) =
     (case ListObjectVersionsPagesWithContext E (list_input st) (listObjectsFn E) (st, w) of
        ((st', w'), err) \<Rightarrow>
          if err \<noteq> None \<and> i < retryCnt st' then
            List_loop E (Suc i) (st', time_Sleep (retryInterval st') w')
          else if err \<noteq> None \<and> i = retryCnt st' then ((st', w'), err)
          else ((st', w'), err))"
  by pat_completeness auto
termination
  apply (relation "measure (\<lambda>(E, i, st, w). retryCnt st - i)")
   apply simp
  apply (auto simp: ListObjectVersionsPagesWithContext_def dest!: pages_loop_listObjectsFn_retryCnt[OF sym])
  done

definition List_s3v :: "env \<Rightarrow> S3vStorage \<times> world \<Rightarrow> (S3vStorage \<times> world) \<times> err option" where
  "List_s3v E sw = List_loop E 0 sw"

section \<open>\<open>PutObject\<close>\<close>

definition PutObjectWithContext :: "env \<Rightarrow> PutObjectInput \<Rightarrow> world \<Rightarrow> err option \<times> world" where
  "PutObjectWithContext E input w =
     (put_object E (calls w) input, remote_call (EvPutObject input) w)"

function PutObject_loop ::
  "env \<Rightarrow> S3vStorage \<Rightarrow> PutObjectInput \<Rightarrow> nat \<Rightarrow> world \<Rightarrow> world \<times> err option" where
  "PutObject_loop E st input i w =
     (case PutObjectWithContext E input w of
        (err, w1) \<Rightarrow>
          if err \<noteq> None \<and> i < retryCnt st then
            PutObject_loop E st input (Suc i) (time_Sleep (retryInterval st) w1)
          else if err \<noteq> None \<and> i = retryCnt st then (w1, err)
          else (w1, None))"
  by pat_completeness auto
termination
  by (relation "measure (\<lambda>(E, st, input, i, w). retryCnt st - i)") auto

text \<open>
  \<open>*obj.Content\<close> and \<open>*obj.Key\<close> are dereferenced while the input is built, before the
  loop: a \<open>nil\<close> pointer panics there, which is the result \<open>None\<close>.
\<close>

definition put_input :: "env \<Rightarrow> S3vStorage \<Rightarrow> Object \<Rightarrow> bytes \<Rightarrow> string \<Rightarrow> PutObjectInput" where
  "put_input E st obj content key =
     \<lparr>poi_Bucket = awsBucket st,
      poi_Key = Some (filepath_Join E (prefix st) key),
      poi_Body = RLReadSeeker (BytesReader content) (rlBucket st),
      poi_ContentType = ContentType obj,
      poi_ContentDisposition = ContentDisposition obj,
      poi_ContentEncoding = ContentEncoding obj,
      poi_ContentLanguage = ContentLanguage obj,
      poi_ACL = ACL obj,
      poi_Metadata = Metadata obj,
      poi_CacheControl = CacheControl obj\<rparr>"

definition PutObject :: "env \<Rightarrow> S3vStorage \<Rightarrow> Object \<Rightarrow> world \<Rightarrow> (world \<times> err option) option" where
  "PutObject E st obj w =
     (case Content obj of
        None \<Rightarrow> None
      | Some content \<Rightarrow>
          (case Key obj of
             None \<Rightarrow> None
           | Some key \<Rightarrow> Some (PutObject_loop E st (put_input E st obj content key) 0 w)))"

section \<open>\<open>GetObjectContent\<close>\<close>

definition GetObjectWithContext ::
  "env \<Rightarrow> GetObjectInput \<Rightarrow> world \<Rightarrow> (GetObjectOutput \<times> err option) \<times> world" where
  "GetObjectWithContext E input w =
     (get_object E (calls w) input, remote_call (EvGetObject input) w)"

text \<open>
  \<open>io.Copy(ratelimit.NewWriter(buf, bucket), body)\<close> into a fresh, empty \<open>buf\<close>: every
  byte the body delivers is written to the buffer through the limiter of \<open>bucket\<close>, and
  the result is the buffer and the error that ended the body, if any.
\<close>

definition io_Copy_ratelimited :: "rl_bucket \<Rightarrow> body \<Rightarrow> world \<Rightarrow> (bytes \<times> err option) \<times> world" where
  "io_Copy_ratelimited b bd w = ((fst bd, snd bd), emit (EvLimit b (length (fst bd))) w)"

definition get_input :: "S3vStorage \<Rightarrow> Object \<Rightarrow> GetObjectInput" where
  "get_input st obj = \<lparr>goi_Bucket = awsBucket st, goi_Key = Key obj, goi_VersionId = VersionId obj\<rparr>"

text \<open>
  One loop, one counter, two places where an error is looked at. \<open>make([]byte, 0, n)\<close>
  panics for a negative \<open>n\<close> and \<open>io.Copy\<close> from a \<open>nil\<close> body panics: both are \<open>None\<close>.
\<close>

function GetObjectContent_loop ::
  "env \<Rightarrow> S3vStorage \<Rightarrow> GetObjectInput \<Rightarrow> nat \<Rightarrow> Object \<Rightarrow> world
     \<Rightarrow> ((Object \<times> world) \<times> err option) option" where
  "GetObjectContent_loop E st input i obj w =
     (case GetObjectWithContext E input w of
        ((result, err), w1) \<Rightarrow>
          if err \<noteq> None \<and> i < retryCnt st then
            GetObjectContent_loop E st input (Suc i) obj (time_Sleep (retryInterval st) w1)
          else if err \<noteq> None \<and> i = retryCnt st then Some ((obj, w1), err)
          else if Int64Value (goo_ContentLength result) < 0 then None
          else
            (case goo_Body result of
               None \<Rightarrow> None
             | Some bd \<Rightarrow>
                 (case io_Copy_ratelimited (rlBucket st) bd w1 of
                    ((data, err2), w2) \<Rightarrow>
                      if err2 \<noteq> None \<and> i < retryCnt st then
                        GetObjectContent_loop E st input (Suc i) obj
                          (time_Sleep (retryInterval st) w2)
                      else if err2 \<noteq> None \<and> i = retryCnt st then Some ((obj, w2), err2)
                      else
                        Some ((obj\<lparr>Content := Some data,
                                   ContentType := goo_ContentType result,
                                   ContentDisposition := goo_ContentDisposition result,
                                   ContentEncoding := goo_ContentEncoding result,
                                   ContentLanguage := goo_ContentLanguage result,
                                   ETag := strongEtag E (goo_ETag result),
                                   Metadata := goo_Metadata result,
                                   Mtime := goo_LastModified result,
                                   CacheControl := goo_CacheControl result\<rparr>, w2), None))))"
  by pat_completeness auto
termination
  by (relation "measure (\<lambda>(E, st, input, i, obj, w). retryCnt st - i)") auto

definition GetObjectContent ::
  "env \<Rightarrow> S3vStorage \<Rightarrow> Object \<Rightarrow> world \<Rightarrow> ((Object \<times> world) \<times> err option) option" where
  "GetObjectContent E st obj w = GetObjectContent_loop E st (get_input st obj) 0 obj w"

section \<open>\<open>GetObjectMeta\<close>\<close>

definition HeadObjectWithContext ::
  "env \<Rightarrow> HeadObjectInput \<Rightarrow> world \<Rightarrow> (HeadObjectOutput \<times> err option) \<times> world" where
  "HeadObjectWithContext E input w =
     (head_object E (calls w) input, remote_call (EvHeadObject input) w)"

definition head_input :: "S3vStorage \<Rightarrow> Object \<Rightarrow> HeadObjectInput" where
  "head_input st obj = \<lparr>hoi_Bucket = awsBucket st, hoi_Key = Key obj, hoi_VersionId = VersionId obj\<rparr>"

function GetObjectMeta_loop ::
  "env \<Rightarrow> S3vStorage \<Rightarrow> HeadObjectInput \<Rightarrow> nat \<Rightarrow> Object \<Rightarrow> world
     \<Rightarrow> (Object \<times> world) \<times> err option" where
  "GetObjectMeta_loop E st input i obj w =
     (case HeadObjectWithContext E input w of
        ((result, err), w1) \<Rightarrow>
          if err \<noteq> None \<and> i < retryCnt st then
            GetObjectMeta_loop E st input (Suc i) obj (time_Sleep (retryInterval st) w1)
          else if err \<noteq> None \<and> i = retryCnt st then ((obj, w1), err)
          else
            ((obj\<lparr>ContentType := hoo_ContentType result,
                  ContentDisposition := hoo_ContentDisposition result,
                  ContentEncoding := hoo_ContentEncoding result,
                  ContentLanguage := hoo_ContentLanguage result,
                  ETag := strongEtag E (hoo_ETag result),
                  Metadata := hoo_Metadata result,
                  Mtime := hoo_LastModified result,
                  CacheControl := hoo_CacheControl result\<rparr>, w1), None))"
  by pat_completeness auto
termination
  by (relation "measure (\<lambda>(E, st, input, i, obj, w). retryCnt st - i)") auto

definition GetObjectMeta ::
  "env \<Rightarrow> S3vStorage \<Rightarrow> Object \<Rightarrow> world \<Rightarrow> (Object \<times> world) \<times> err option" where
  "GetObjectMeta E st obj w = GetObjectMeta_loop E st (head_input st obj) 0 obj w"

section \<open>\<open>DeleteObject\<close>\<close>

definition DeleteObjectWithContext :: "env \<Rightarrow> DeleteObjectInput \<Rightarrow> world \<Rightarrow> err option \<times> world" where
  "DeleteObjectWithContext E input w =
     (delete_object E (calls w) input, remote_call (EvDeleteObject input) w)"

definition delete_input :: "S3vStorage \<Rightarrow> Object \<Rightarrow> DeleteObjectInput" where
  "delete_input st obj = \<lparr>doi_Bucket = awsBucket st, doi_Key = Key obj, doi_VersionId = VersionId obj\<rparr>"

function DeleteObject_loop ::
  "env \<Rightarrow> S3vStorage \<Rightarrow> DeleteObjectInput \<Rightarrow> nat \<Rightarrow> world \<Rightarrow> world \<times> err option" where
  "DeleteObject_loop E st input i w =
     (case DeleteObjectWithContext E input w of
        (err, w1) \<Rightarrow>
          if err \<noteq> None \<and> i < retryCnt st then
            DeleteObject_loop E st input (Suc i) (time_Sleep (retryInterval st) w1)
          else if err \<noteq> None \<and> i = retryCnt st then (w1, err)
          else (w1, None))"
  by pat_completeness auto
termination
  by (relation "measure (\<lambda>(E, st, input, i, w). retryCnt st - i)") auto

definition DeleteObject :: "env \<Rightarrow> S3vStorage \<Rightarrow> Object \<Rightarrow> world \<Rightarrow> world \<times> err option" where
  "DeleteObject E st obj w = DeleteObject_loop E st (delete_input st obj) 0 w"

section \<open>Vocabulary of the properties\<close>

text \<open>
  The retry schedule of a trace: its remote calls (one per attempt; a follow-up page
  request inside a paging call is not one) and its sleeps, in order.
\<close>

datatype tick = Attempt | Sleep duration

fun ticks_of :: "event \<Rightarrow> tick list" where
  "ticks_of (EvListVersions _) = [Attempt]"
| "ticks_of (EvPutObject _) = [Attempt]"
| "ticks_of (EvGetObject _) = [Attempt]"
| "ticks_of (EvHeadObject _) = [Attempt]"
| "ticks_of (EvDeleteObject _) = [Attempt]"
| "ticks_of (EvSleep d) = [Sleep d]"
| "ticks_of _ = []"

definition schedule :: "event list \<Rightarrow> tick list" where
  "schedule tr = concat (map ticks_of tr)"

text \<open>\<open>k\<close> failed attempts, each followed by one sleep of \<open>d\<close>.\<close>

definition failed_rounds :: "nat \<Rightarrow> duration \<Rightarrow> tick list" where
  "failed_rounds k d = concat (replicate k [Attempt, Sleep d])"

text \<open>The objects sent on the output channel, in order.\<close>

fun sent_of :: "event \<Rightarrow> Object list" where
  "sent_of (EvSend obj) = [obj]"
| "sent_of _ = []"

definition sent :: "event list \<Rightarrow> Object list" where
  "sent tr = concat (map sent_of tr)"

text \<open>The uses of a rate limiter: which bucket, how many bytes.\<close>

fun limit_of :: "event \<Rightarrow> (rl_bucket \<times> nat) list" where
  "limit_of (EvLimit b n) = [(b, n)]"
| "limit_of _ = []"

definition limited :: "event list \<Rightarrow> (rl_bucket \<times> nat) list" where
  "limited tr = concat (map limit_of tr)"

text \<open>The upload bodies handed to the remote store, and the get requests issued.\<close>

fun put_body_of :: "event \<Rightarrow> reader list" where
  "put_body_of (EvPutObject input) = [poi_Body input]"
| "put_body_of _ = []"

definition put_bodies :: "event list \<Rightarrow> reader list" where
  "put_bodies tr = concat (map put_body_of tr)"

fun get_request_of :: "event \<Rightarrow> GetObjectInput list" where
  "get_request_of (EvGetObject input) = [input]"
| "get_request_of _ = []"

definition get_requests :: "event list \<Rightarrow> GetObjectInput list" where
  "get_requests tr = concat (map get_request_of tr)"

text \<open>
  A paging run, read off: the error it ends with, the pages it delivers, the events of
  one page that was processed (its records sent in order, then the cursor written), the
  events of the whole run after its first request, and the cursor after the run.
\<close>

fun run_error :: "pager_run \<Rightarrow> err option" where
  "run_error (PageFail e) = Some e"
| "run_error (PageLast p) = None"
| "run_error (PageMore p rest) = run_error rest"

fun run_pages :: "pager_run \<Rightarrow> ListObjectVersionsOutput list" where
  "run_pages (PageFail e) = []"
| "run_pages (PageLast p) = [p]"
| "run_pages (PageMore p rest) = p # run_pages rest"

definition page_events :: "env \<Rightarrow> ListObjectVersionsOutput \<Rightarrow> event list" where
  "page_events E p =
     map (\<lambda>ov. EvSend (version_object E ov)) (lvo_Versions p) @ [EvSetMarker (lvo_VersionIdMarker p)]"

fun run_events :: "env \<Rightarrow> pager_run \<Rightarrow> event list" where
  "run_events E (PageFail e) = []"
| "run_events E (PageLast p) = page_events E p"
| "run_events E (PageMore p rest) = page_events E p @ EvNextPage # run_events E rest"

definition cursor_after :: "string option \<Rightarrow> pager_run \<Rightarrow> string option" where
  "cursor_after m run =
     (if run_pages run = [] then m else lvo_VersionIdMarker (last (run_pages run)))"

text \<open>
  One attempt of \<open>GetObjectContent\<close>, read off the answer to its request: the error it
  meets (of the request, or else of draining the body), and whether it succeeds.
\<close>

definition get_attempt_error :: "GetObjectOutput \<times> err option \<Rightarrow> err option" where
  "get_attempt_error r =
     (case snd r of
        Some e \<Rightarrow> Some e
      | None \<Rightarrow>
          if Int64Value (goo_ContentLength (fst r)) < 0 then None
          else (case goo_Body (fst r) of None \<Rightarrow> None | Some bd \<Rightarrow> snd bd))"

definition get_attempt_ok :: "GetObjectOutput \<times> err option \<Rightarrow> bool" where
  "get_attempt_ok r =
     (snd r = None \<and> 0 \<le> Int64Value (goo_ContentLength (fst r)) \<and>
      (case goo_Body (fst r) of None \<Rightarrow> False | Some bd \<Rightarrow> snd bd = None))"

text \<open>The field updates at the end of \<open>GetObjectMeta\<close> and of \<open>GetObjectContent\<close>.\<close>

definition meta_update :: "env \<Rightarrow> HeadObjectOutput \<Rightarrow> Object \<Rightarrow> Object" where
  "meta_update E result obj =
     obj\<lparr>ContentType := hoo_ContentType result,
         ContentDisposition := hoo_ContentDisposition result,
         ContentEncoding := hoo_ContentEncoding result,
         ContentLanguage := hoo_ContentLanguage result,
         ETag := strongEtag E (hoo_ETag result),
         Metadata := hoo_Metadata result,
         Mtime := hoo_LastModified result,
         CacheControl := hoo_CacheControl result\<rparr>"

definition content_update :: "env \<Rightarrow> GetObjectOutput \<Rightarrow> bytes \<Rightarrow> Object \<Rightarrow> Object" where
  "content_update E result data obj =
     obj\<lparr>Content := Some data,
         ContentType := goo_ContentType result,
         ContentDisposition := goo_ContentDisposition result,
         ContentEncoding := goo_ContentEncoding result,
         ContentLanguage := goo_ContentLanguage result,
         ETag := strongEtag E (goo_ETag result),
         Metadata := goo_Metadata result,
         Mtime := goo_LastModified result,
         CacheControl := goo_CacheControl result\<rparr>"

text \<open>
  A percent-encoding as a remote store may apply to a key: a byte that \<open>esc\<close> selects
  becomes \<open>%\<close> and its two hexadecimal digits (upper or lower case), a space
  becomes \<open>+\<close> when \<open>sp\<close> is set, every other byte stays.
\<close>

definition hexdigit :: "bool \<Rightarrow> nat \<Rightarrow> char" where
  "hexdigit upper n = (if n < 10 then char_of (48 + n) else char_of ((if upper then 55 else 87) + n))"

fun pct_encode :: "(char \<Rightarrow> bool) \<Rightarrow> bool \<Rightarrow> bool \<Rightarrow> string \<Rightarrow> string" where
  "pct_encode esc upper sp [] = []"
| "pct_encode esc upper sp (c # cs) =
     (if sp \<and> c = CHR '' '' then CHR ''+'' # pct_encode esc upper sp cs
      else if esc c then
        CHR ''%'' # hexdigit upper (of_char c div 16) # hexdigit upper (of_char c mod 16)
          # pct_encode esc upper sp cs
      else c # pct_encode esc upper sp cs)"

text \<open>
  The page requests of a trace (the first request of a paging call and the follow-up
  requests), counted; and the check that every follow-up page request in a trace comes
  directly after a write of the cursor, \<open>prev\<close> being the event before the trace.
\<close>

fun page_request_of :: "event \<Rightarrow> nat" where
  "page_request_of (EvListVersions _) = 1"
| "page_request_of EvNextPage = 1"
| "page_request_of _ = 0"

definition page_requests :: "event list \<Rightarrow> nat" where
  "page_requests tr = sum_list (map page_request_of tr)"

fun is_marker_write :: "event \<Rightarrow> bool" where
  "is_marker_write (EvSetMarker m) = True"
| "is_marker_write _ = False"

fun cursor_written_before_next_page :: "event \<Rightarrow> event list \<Rightarrow> bool" where
  "cursor_written_before_next_page prev [] = True"
| "cursor_written_before_next_page prev (e # tr) =
     ((e = EvNextPage \<longrightarrow> is_marker_write prev) \<and> cursor_written_before_next_page e tr)"

text \<open>
  The limiter use of the attempt of \<open>GetObjectContent\<close> that call number \<open>n\<close> answers:
  when the request is answered without error and with a body, the bytes that the body
  delivers (whether it then ends or breaks) pass through the client's bucket; when the
  request fails there is no body and no use.
\<close>

definition drain_use :: "env \<Rightarrow> S3vStorage \<Rightarrow> GetObjectInput \<Rightarrow> nat \<Rightarrow> (rl_bucket \<times> nat) list" where
  "drain_use E st input n =
     (case get_object E n input of
        (result, err) \<Rightarrow>
          if err \<noteq> None \<or> Int64Value (goo_ContentLength result) < 0 then []
          else (case goo_Body result of
                  None \<Rightarrow> []
                | Some bd \<Rightarrow> [(rlBucket st, length (fst bd))]))"

section \<open>Concrete scenarios\<close>

text \<open>
  A client with three retries and an interval of 10, an object to work on, two listing
  pages (the second holds a key that is not a valid percent-encoding), and two remote
  stores: one whose every operation fails on its first two calls and works from the third
  on, and one that fails every call, with an error that names the call.
\<close>

definition sc_st :: S3vStorage where
  "sc_st = NewS3vStorage ''bucket'' ''pfx'' 2 3 10"

definition sc_world :: world where
  "sc_world = \<lparr>calls = 0, trace = []\<rparr>"

definition sc_obj :: Object where
  "sc_obj =
     \<lparr>Key = Some ''k'', VersionId = Some ''v1'', ETag = None, Mtime = None,
      IsLatest = Some True, Content = Some ''old'', ContentType = None,
      ContentDisposition = None, ContentEncoding = None, ContentLanguage = None,
      ACL = Some ''private'', Metadata = [], CacheControl = None\<rparr>"

definition sc_page1 :: ListObjectVersionsOutput where
  "sc_page1 =
     \<lparr>lvo_Versions =
        [\<lparr>ov_Key = Some ''a%2Fb+c%25'', ov_VersionId = Some ''v1'', ov_ETag = Some ''e1'',
          ov_LastModified = Some 100, ov_IsLatest = Some True\<rparr>],
      lvo_KeyMarker = None, lvo_VersionIdMarker = Some ''m1'',
      lvo_NextKeyMarker = Some ''a/b c%'', lvo_NextVersionIdMarker = Some ''v1''\<rparr>"

definition sc_page2 :: ListObjectVersionsOutput where
  "sc_page2 =
     \<lparr>lvo_Versions =
        [\<lparr>ov_Key = Some ''%zz'', ov_VersionId = Some ''v2'', ov_ETag = Some ''e2'',
          ov_LastModified = Some 200, ov_IsLatest = Some False\<rparr>],
      lvo_KeyMarker = Some ''a/b c%'', lvo_VersionIdMarker = Some ''m2'',
      lvo_NextKeyMarker = None, lvo_NextVersionIdMarker = None\<rparr>"

definition sc_get_out :: "body option \<Rightarrow> GetObjectOutput" where
  "sc_get_out b =
     \<lparr>goo_Body = b, goo_ContentLength = Some 4, goo_ContentType = Some ''text/plain'',
      goo_ContentDisposition = None, goo_ContentEncoding = None, goo_ContentLanguage = None,
      goo_ETag = Some ''e1'', goo_Metadata = [(''a'', ''b'')], goo_LastModified = Some 100,
      goo_CacheControl = None\<rparr>"

definition sc_head_out :: HeadObjectOutput where
  "sc_head_out =
     \<lparr>hoo_ContentType = Some ''text/plain'', hoo_ContentDisposition = None,
      hoo_ContentEncoding = None, hoo_ContentLanguage = None, hoo_ETag = Some ''e1'',
      hoo_Metadata = [(''a'', ''b'')], hoo_LastModified = Some 100, hoo_CacheControl = None\<rparr>"

definition flaky_env :: env where
  "flaky_env =
     \<lparr>strongEtag = (\<lambda>t. t),
      filepath_Join = (\<lambda>a b. a @ ''/'' @ b),
      list_pages = (\<lambda>n inp. if n < 2 then PageMore sc_page1 (PageFail ''timeout'')
                             else PageMore sc_page1 (PageLast sc_page2)),
      put_object = (\<lambda>n inp. if n < 2 then Some ''timeout'' else None),
      get_object = (\<lambda>n inp. if n = 0 then (sc_get_out None, Some ''timeout'')
                             else if n = 1 then (sc_get_out (Some (''da'', Some ''reset'')), None)
                             else (sc_get_out (Some (''data'', None)), None)),
      head_object = (\<lambda>n inp. if n < 2 then (sc_head_out, Some ''timeout'') else (sc_head_out, None)),
      delete_object = (\<lambda>n inp. if n < 2 then Some ''timeout'' else None)\<rparr>"

text \<open>
  A remote store that answers every get request without error, but the body of the
  first answer breaks after two bytes; the later bodies are whole.
\<close>

definition broken_body_env :: env where
  "broken_body_env =
     flaky_env\<lparr>get_object :=
       (\<lambda>n inp. if n = 0 then (sc_get_out (Some (''da'', Some ''reset'')), None)
                 else (sc_get_out (Some (''data'', None)), None))\<rparr>"

definition err_no :: "nat \<Rightarrow> err" where
  "err_no n = ''error '' @ replicate n CHR ''I''"

definition failing_env :: env where
  "failing_env =
     \<lparr>strongEtag = (\<lambda>t. t),
      filepath_Join = (\<lambda>a b. a @ ''/'' @ b),
      list_pages = (\<lambda>n inp. if n = 0 then PageMore sc_page1 (PageFail (err_no n))
                             else PageFail (err_no n)),
      put_object = (\<lambda>n inp. Some (err_no n)),
      get_object = (\<lambda>n inp. if n = 0 then (sc_get_out (Some (''da'', Some (err_no n))), None)
                             else (sc_get_out None, Some (err_no n))),
      head_object = (\<lambda>n inp. (sc_head_out, Some (err_no n))),
      delete_object = (\<lambda>n inp. Some (err_no n))\<rparr>"

text \<open>
  A remote store with a listing of two pages of one version each. As the versioned
  store does, it returns in a page's \<open>KeyMarker\<close> and \<open>VersionIdMarker\<close> the markers of the
  request that the page answers, and in \<open>NextKeyMarker\<close> and \<open>NextVersionIdMarker\<close> where
  the next page starts. A request without a version marker is answered from the
  beginning of the listing, a request with one from the second page. The paginator's
  request for the second page fails in the first paging call and works afterwards.
\<close>

definition echo_version1 :: ObjectVersion where
  "echo_version1 =
     \<lparr>ov_Key = Some ''a'', ov_VersionId = Some ''v1'', ov_ETag = Some ''e1'',
      ov_LastModified = Some 100, ov_IsLatest = Some True\<rparr>"

definition echo_version2 :: ObjectVersion where
  "echo_version2 =
     \<lparr>ov_Key = Some ''b'', ov_VersionId = Some ''v2'', ov_ETag = Some ''e2'',
      ov_LastModified = Some 200, ov_IsLatest = Some True\<rparr>"

definition echo_page1 :: "ListObjectVersionsInput \<Rightarrow> ListObjectVersionsOutput" where
  "echo_page1 inp =
     \<lparr>lvo_Versions = [echo_version1],
      lvo_KeyMarker = lvi_KeyMarker inp, lvo_VersionIdMarker = lvi_VersionIdMarker inp,
      lvo_NextKeyMarker = Some ''a'', lvo_NextVersionIdMarker = Some ''v1''\<rparr>"

definition echo_page2 :: ListObjectVersionsOutput where
  "echo_page2 =
     \<lparr>lvo_Versions = [echo_version2],
      lvo_KeyMarker = Some ''a'', lvo_VersionIdMarker = Some ''v1'',
      lvo_NextKeyMarker = None, lvo_NextVersionIdMarker = None\<rparr>"

definition echo_env :: env where
  "echo_env =
     flaky_env\<lparr>list_pages :=
       (\<lambda>n inp. if lvi_VersionIdMarker inp = None
                 then PageMore (echo_page1 inp)
                        (if n = 0 then PageFail ''timeout'' else PageLast echo_page2)
                 else PageLast echo_page2)\<rparr>"

section \<open>Lemmas\<close>

lemma schedule_append: "schedule (a @ b) = schedule a @ schedule b"
  by (simp add: schedule_def)

lemma failed_rounds_0: "failed_rounds 0 d = []"
  by (simp add: failed_rounds_def)

lemma failed_rounds_Suc: "failed_rounds (Suc k) d = Attempt # Sleep d # failed_rounds k d"
  by (simp add: failed_rounds_def)

lemma shift_fails:
  assumes "\<forall>j<Suc k. P (n + j)"
  shows "P n" and "\<forall>j<k. P (Suc n + j)"
proof -
  from assms have "P (n + 0)" by blast
  then show "P n" by simp
  show "\<forall>j<k. P (Suc n + j)"
  proof (intro allI impI)
    fix j assume "j < k"
    then have "Suc j < Suc k" by simp
    with assms have "P (n + Suc j)" by blast
    then show "P (Suc n + j)" by simp
  qed
qed

declare List_loop.simps [simp del]
declare PutObject_loop.simps [simp del]
declare GetObjectContent_loop.simps [simp del]
declare GetObjectMeta_loop.simps [simp del]
declare DeleteObject_loop.simps [simp del]

subsection \<open>The loop of \<open>PutObject\<close>\<close>

lemma PutObject_loop_retry:
  assumes "put_object E (calls w) input \<noteq> None" and "i < retryCnt st"
  shows "PutObject_loop E st input i w =
     PutObject_loop E st input (Suc i)
       (time_Sleep (retryInterval st) (remote_call (EvPutObject input) w))"
  using assms by (subst PutObject_loop.simps) (simp add: PutObjectWithContext_def)

lemma PutObject_loop_ok:
  assumes "put_object E (calls w) input = None"
  shows "PutObject_loop E st input i w = (remote_call (EvPutObject input) w, None)"
  using assms by (subst PutObject_loop.simps) (simp add: PutObjectWithContext_def)

lemma PutObject_loop_last:
  assumes "put_object E (calls w) input = Some e" and "i = retryCnt st"
  shows "PutObject_loop E st input i w = (remote_call (EvPutObject input) w, Some e)"
  using assms by (subst PutObject_loop.simps) (simp add: PutObjectWithContext_def)

lemma PutObject_loop_skip:
  "\<forall>j<k. put_object E (calls w + j) input \<noteq> None \<Longrightarrow> i + k \<le> retryCnt st \<Longrightarrow>
   \<exists>w2. PutObject_loop E st input i w = PutObject_loop E st input (i + k) w2
     \<and> calls w2 = calls w + k
     \<and> schedule (trace w2) = schedule (trace w) @ failed_rounds k (retryInterval st)
     \<and> put_bodies (trace w2) = put_bodies (trace w) @ replicate k (poi_Body input)"
proof (induction k arbitrary: i w)
  case 0
  then show ?case by (auto simp: failed_rounds_0)
next
  case (Suc k)
  let ?w1 = "time_Sleep (retryInterval st) (remote_call (EvPutObject input) w)"
  have f0: "put_object E (calls w) input \<noteq> None"
    and fs: "\<forall>j<k. put_object E (Suc (calls w) + j) input \<noteq> None"
    using shift_fails [OF Suc.prems(1)] by blast+
  from Suc.prems have lt: "i < retryCnt st" by simp
  have c1: "calls ?w1 = Suc (calls w)"
    by (simp add: time_Sleep_def emit_def remote_call_def)
  have t1: "schedule (trace ?w1) = schedule (trace w) @ [Attempt, Sleep (retryInterval st)]"
    by (simp add: time_Sleep_def emit_def remote_call_def schedule_def)
  have b1: "put_bodies (trace ?w1) = put_bodies (trace w) @ [poi_Body input]"
    by (simp add: time_Sleep_def emit_def remote_call_def put_bodies_def)
  from fs have "\<forall>j<k. put_object E (calls ?w1 + j) input \<noteq> None"
    by (simp only: c1)
  moreover from Suc.prems have "Suc i + k \<le> retryCnt st" by simp
  ultimately obtain w2 where
    "PutObject_loop E st input (Suc i) ?w1 = PutObject_loop E st input (Suc i + k) w2"
    "calls w2 = calls ?w1 + k"
    "schedule (trace w2) = schedule (trace ?w1) @ failed_rounds k (retryInterval st)"
    "put_bodies (trace w2) = put_bodies (trace ?w1) @ replicate k (poi_Body input)"
    using Suc.IH by blast
  then show ?case
    using PutObject_loop_retry [OF f0 lt] c1 t1 b1
    by (auto simp: failed_rounds_Suc replicate_append_same)
qed

subsection \<open>The loop of \<open>DeleteObject\<close>\<close>

lemma DeleteObject_loop_retry:
  assumes "delete_object E (calls w) input \<noteq> None" and "i < retryCnt st"
  shows "DeleteObject_loop E st input i w =
     DeleteObject_loop E st input (Suc i)
       (time_Sleep (retryInterval st) (remote_call (EvDeleteObject input) w))"
  using assms by (subst DeleteObject_loop.simps) (simp add: DeleteObjectWithContext_def)

lemma DeleteObject_loop_ok:
  assumes "delete_object E (calls w) input = None"
  shows "DeleteObject_loop E st input i w = (remote_call (EvDeleteObject input) w, None)"
  using assms by (subst DeleteObject_loop.simps) (simp add: DeleteObjectWithContext_def)

lemma DeleteObject_loop_last:
  assumes "delete_object E (calls w) input = Some e" and "i = retryCnt st"
  shows "DeleteObject_loop E st input i w = (remote_call (EvDeleteObject input) w, Some e)"
  using assms by (subst DeleteObject_loop.simps) (simp add: DeleteObjectWithContext_def)

lemma DeleteObject_loop_skip:
  "\<forall>j<k. delete_object E (calls w + j) input \<noteq> None \<Longrightarrow> i + k \<le> retryCnt st \<Longrightarrow>
   \<exists>w2. DeleteObject_loop E st input i w = DeleteObject_loop E st input (i + k) w2
     \<and> calls w2 = calls w + k
     \<and> schedule (trace w2) = schedule (trace w) @ failed_rounds k (retryInterval st)
     \<and> limited (trace w2) = limited (trace w)"
proof (induction k arbitrary: i w)
  case 0
  then show ?case by (auto simp: failed_rounds_0)
next
  case (Suc k)
  let ?w1 = "time_Sleep (retryInterval st) (remote_call (EvDeleteObject input) w)"
  have f0: "delete_object E (calls w) input \<noteq> None"
    and fs: "\<forall>j<k. delete_object E (Suc (calls w) + j) input \<noteq> None"
    using shift_fails [OF Suc.prems(1)] by blast+
  from Suc.prems have lt: "i < retryCnt st" by simp
  have c1: "calls ?w1 = Suc (calls w)"
    by (simp add: time_Sleep_def emit_def remote_call_def)
  have t1: "schedule (trace ?w1) = schedule (trace w) @ [Attempt, Sleep (retryInterval st)]"
    by (simp add: time_Sleep_def emit_def remote_call_def schedule_def)
  have l1: "limited (trace ?w1) = limited (trace w)"
    by (simp add: time_Sleep_def emit_def remote_call_def limited_def)
  from fs have "\<forall>j<k. delete_object E (calls ?w1 + j) input \<noteq> None"
    by (simp only: c1)
  moreover from Suc.prems have "Suc i + k \<le> retryCnt st" by simp
  ultimately obtain w2 where
    "DeleteObject_loop E st input (Suc i) ?w1 = DeleteObject_loop E st input (Suc i + k) w2"
    "calls w2 = calls ?w1 + k"
    "schedule (trace w2) = schedule (trace ?w1) @ failed_rounds k (retryInterval st)"
    "limited (trace w2) = limited (trace ?w1)"
    using Suc.IH by blast
  then show ?case
    using DeleteObject_loop_retry [OF f0 lt] c1 t1 l1
    by (auto simp: failed_rounds_Suc)
qed

text \<open>Whatever the remote store answers, the loop passes nothing through a limiter.\<close>

lemma DeleteObject_loop_limited:
  "limited (trace (fst (DeleteObject_loop E st input i w))) = limited (trace w)"
proof (induction n \<equiv> "retryCnt st - i" arbitrary: i w)
  case 0
  then show ?case
    by (subst DeleteObject_loop.simps)
      (simp add: DeleteObjectWithContext_def remote_call_def limited_def)
next
  case (Suc n)
  show ?case
  proof (cases "delete_object E (calls w) input")
    case None
    then show ?thesis
      by (simp add: DeleteObject_loop_ok remote_call_def limited_def)
  next
    case (Some e)
    from Suc.hyps(2) have lt: "i < retryCnt st" and n: "n = retryCnt st - Suc i" by simp_all
    from Some have "delete_object E (calls w) input \<noteq> None" by simp
    from DeleteObject_loop_retry [OF this lt] Suc.hyps(1) [OF n]
    show ?thesis
      by (simp add: time_Sleep_def emit_def remote_call_def limited_def)
  qed
qed

subsection \<open>The loop of \<open>GetObjectMeta\<close>\<close>

lemma GetObjectMeta_loop_retry:
  assumes "snd (head_object E (calls w) input) \<noteq> None" and "i < retryCnt st"
  shows "GetObjectMeta_loop E st input i obj w =
     GetObjectMeta_loop E st input (Suc i) obj
       (time_Sleep (retryInterval st) (remote_call (EvHeadObject input) w))"
  using assms
  by (subst GetObjectMeta_loop.simps) (auto simp: HeadObjectWithContext_def split: prod.splits)

lemma GetObjectMeta_loop_ok:
  assumes "head_object E (calls w) input = (result, None)"
  shows "GetObjectMeta_loop E st input i obj w =
     ((meta_update E result obj, remote_call (EvHeadObject input) w), None)"
  using assms
  by (subst GetObjectMeta_loop.simps) (simp add: HeadObjectWithContext_def meta_update_def)

lemma GetObjectMeta_loop_last:
  assumes "snd (head_object E (calls w) input) = Some e" and "i = retryCnt st"
  shows "GetObjectMeta_loop E st input i obj w =
     ((obj, remote_call (EvHeadObject input) w), Some e)"
  using assms
  by (subst GetObjectMeta_loop.simps) (auto simp: HeadObjectWithContext_def split: prod.splits)

lemma GetObjectMeta_loop_skip:
  "\<forall>j<k. snd (head_object E (calls w + j) input) \<noteq> None \<Longrightarrow> i + k \<le> retryCnt st \<Longrightarrow>
   \<exists>w2. GetObjectMeta_loop E st input i obj w = GetObjectMeta_loop E st input (i + k) obj w2
     \<and> calls w2 = calls w + k
     \<and> schedule (trace w2) = schedule (trace w) @ failed_rounds k (retryInterval st)
     \<and> limited (trace w2) = limited (trace w)"
proof (induction k arbitrary: i w)
  case 0
  then show ?case by (auto simp: failed_rounds_0)
next
  case (Suc k)
  let ?w1 = "time_Sleep (retryInterval st) (remote_call (EvHeadObject input) w)"
  have f0: "snd (head_object E (calls w) input) \<noteq> None"
    and fs: "\<forall>j<k. snd (head_object E (Suc (calls w) + j) input) \<noteq> None"
    using shift_fails [OF Suc.prems(1)] by blast+
  from Suc.prems have lt: "i < retryCnt st" by simp
  have c1: "calls ?w1 = Suc (calls w)"
    by (simp add: time_Sleep_def emit_def remote_call_def)
  have t1: "schedule (trace ?w1) = schedule (trace w) @ [Attempt, Sleep (retryInterval st)]"
    by (simp add: time_Sleep_def emit_def remote_call_def schedule_def)
  have l1: "limited (trace ?w1) = limited (trace w)"
    by (simp add: time_Sleep_def emit_def remote_call_def limited_def)
  from fs have "\<forall>j<k. snd (head_object E (calls ?w1 + j) input) \<noteq> None"
    by (simp only: c1)
  moreover from Suc.prems have "Suc i + k \<le> retryCnt st" by simp
  ultimately obtain w2 where
    "GetObjectMeta_loop E st input (Suc i) obj ?w1 = GetObjectMeta_loop E st input (Suc i + k) obj w2"
    "calls w2 = calls ?w1 + k"
    "schedule (trace w2) = schedule (trace ?w1) @ failed_rounds k (retryInterval st)"
    "limited (trace w2) = limited (trace ?w1)"
    using Suc.IH by blast
  then show ?case
    using GetObjectMeta_loop_retry [OF f0 lt] c1 t1 l1
    by (auto simp: failed_rounds_Suc)
qed

text \<open>
  What a run of the loop that ends without error has done: the last call it issued was
  answered without error, and the object is the given one with the eight metadata
  fields taken from that answer. Nothing passes through a limiter in any case.
\<close>

lemma GetObjectMeta_loop_success:
  "GetObjectMeta_loop E st input i obj w = ((obj', w'), None) \<Longrightarrow> i \<le> retryCnt st \<Longrightarrow>
   \<exists>result. calls w < calls w' \<and> head_object E (calls w' - 1) input = (result, None)
     \<and> obj' = meta_update E result obj"
proof (induction n \<equiv> "retryCnt st - i" arbitrary: i w)
  case 0
  then have i: "i = retryCnt st" by simp
  obtain result err where h: "head_object E (calls w) input = (result, err)" by force
  show ?case
  proof (cases err)
    case None
    with h "0.prems"(1) show ?thesis
      by (auto simp: GetObjectMeta_loop_ok remote_call_def)
  next
    case (Some e)
    with h have "snd (head_object E (calls w) input) = Some e" by simp
    from GetObjectMeta_loop_last [OF this i] "0.prems"(1) show ?thesis by simp
  qed
next
  case (Suc n)
  obtain result err where h: "head_object E (calls w) input = (result, err)" by force
  show ?case
  proof (cases err)
    case None
    with h Suc.prems(1) show ?thesis
      by (auto simp: GetObjectMeta_loop_ok remote_call_def)
  next
    case (Some e)
    let ?w1 = "time_Sleep (retryInterval st) (remote_call (EvHeadObject input) w)"
    from Suc.hyps(2) have lt: "i < retryCnt st" and n: "n = retryCnt st - Suc i" by simp_all
    from Some h have "snd (head_object E (calls w) input) \<noteq> None" by simp
    from GetObjectMeta_loop_retry [OF this lt] Suc.prems(1)
    have "GetObjectMeta_loop E st input (Suc i) obj ?w1 = ((obj', w'), None)" by simp
    from Suc.hyps(1) [OF n this] lt
    obtain r where "calls ?w1 < calls w'" "head_object E (calls w' - 1) input = (r, None)"
      "obj' = meta_update E r obj" by auto
    moreover have "calls ?w1 = Suc (calls w)"
      by (simp add: time_Sleep_def emit_def remote_call_def)
    ultimately show ?thesis by auto
  qed
qed

lemma GetObjectMeta_loop_limited:
  "limited (trace (snd (fst (GetObjectMeta_loop E st input i obj w)))) = limited (trace w)"
proof (induction n \<equiv> "retryCnt st - i" arbitrary: i w)
  case 0
  then show ?case
    by (subst GetObjectMeta_loop.simps)
      (simp add: HeadObjectWithContext_def remote_call_def limited_def split: prod.splits)
next
  case (Suc n)
  obtain result err where h: "head_object E (calls w) input = (result, err)" by force
  show ?case
  proof (cases err)
    case None
    with h show ?thesis
      by (simp add: GetObjectMeta_loop_ok remote_call_def limited_def)
  next
    case (Some e)
    from Suc.hyps(2) have lt: "i < retryCnt st" and n: "n = retryCnt st - Suc i" by simp_all
    from Some h have "snd (head_object E (calls w) input) \<noteq> None" by simp
    from GetObjectMeta_loop_retry [OF this lt] Suc.hyps(1) [OF n]
    show ?thesis
      by (simp add: time_Sleep_def emit_def remote_call_def limited_def)
  qed
qed

subsection \<open>The loop of \<open>GetObjectContent\<close>\<close>

lemma GetObjectContent_loop_retry:
  assumes "get_attempt_error (get_object E (calls w) input) \<noteq> None" and "i < retryCnt st"
  shows "\<exists>w1 pre. GetObjectContent_loop E st input i obj w =
       GetObjectContent_loop E st input (Suc i) obj w1
     \<and> calls w1 = Suc (calls w)
     \<and> schedule (trace w1) = schedule (trace w) @ [Attempt, Sleep (retryInterval st)]
     \<and> get_requests (trace w1) = get_requests (trace w) @ [input]
     \<and> limited (trace w1) = limited (trace w) @ pre \<and> (\<forall>x\<in>set pre. fst x = rlBucket st)"
proof -
  obtain result err where h: "get_object E (calls w) input = (result, err)" by force
  let ?w0 = "remote_call (EvGetObject input) w"
  show ?thesis
  proof (cases err)
    case (Some e)
    let ?w1 = "time_Sleep (retryInterval st) ?w0"
    from Some h assms(2) have "GetObjectContent_loop E st input i obj w =
        GetObjectContent_loop E st input (Suc i) obj ?w1"
      by (subst GetObjectContent_loop.simps) (simp add: GetObjectWithContext_def)
    moreover have "calls ?w1 = Suc (calls w)"
      "schedule (trace ?w1) = schedule (trace w) @ [Attempt, Sleep (retryInterval st)]"
      "get_requests (trace ?w1) = get_requests (trace w) @ [input]"
      "limited (trace ?w1) = limited (trace w) @ []"
      by (simp_all add: time_Sleep_def emit_def remote_call_def schedule_def
          get_requests_def limited_def)
    ultimately show ?thesis by force
  next
    case None
    with h assms(1) obtain d e where
      cl: "\<not> Int64Value (goo_ContentLength result) < 0" and b: "goo_Body result = Some (d, Some e)"
      by (auto simp: get_attempt_error_def split: if_splits option.splits)
    let ?w1 = "time_Sleep (retryInterval st) (emit (EvLimit (rlBucket st) (length d)) ?w0)"
    from None h cl b assms(2) have "GetObjectContent_loop E st input i obj w =
        GetObjectContent_loop E st input (Suc i) obj ?w1"
      by (subst GetObjectContent_loop.simps)
        (simp add: GetObjectWithContext_def io_Copy_ratelimited_def)
    moreover have "calls ?w1 = Suc (calls w)"
      "schedule (trace ?w1) = schedule (trace w) @ [Attempt, Sleep (retryInterval st)]"
      "get_requests (trace ?w1) = get_requests (trace w) @ [input]"
      "limited (trace ?w1) = limited (trace w) @ [(rlBucket st, length d)]"
      by (simp_all add: time_Sleep_def emit_def remote_call_def schedule_def
          get_requests_def limited_def)
    ultimately show ?thesis by force
  qed
qed

lemma GetObjectContent_loop_ok:
  assumes "get_object E (calls w) input = (result, err)" and "get_attempt_ok (result, err)"
  shows "\<exists>d. goo_Body result = Some (d, None) \<and> err = None
     \<and> GetObjectContent_loop E st input i obj w =
         Some ((content_update E result d obj,
                emit (EvLimit (rlBucket st) (length d)) (remote_call (EvGetObject input) w)), None)"
proof -
  from assms(2) obtain d where e: "err = None"
    and cl: "\<not> Int64Value (goo_ContentLength result) < 0" and b: "goo_Body result = Some (d, None)"
    by (auto simp: get_attempt_ok_def split: option.splits)
  with assms(1) have "GetObjectContent_loop E st input i obj w =
      Some ((content_update E result d obj,
             emit (EvLimit (rlBucket st) (length d)) (remote_call (EvGetObject input) w)), None)"
    by (subst GetObjectContent_loop.simps)
      (simp add: GetObjectWithContext_def io_Copy_ratelimited_def content_update_def)
  with e b show ?thesis by blast
qed

lemma GetObjectContent_loop_last:
  assumes "get_attempt_error (get_object E (calls w) input) = Some e" and "i = retryCnt st"
  shows "\<exists>w1 pre. GetObjectContent_loop E st input i obj w = Some ((obj, w1), Some e)
     \<and> calls w1 = Suc (calls w)
     \<and> schedule (trace w1) = schedule (trace w) @ [Attempt]
     \<and> get_requests (trace w1) = get_requests (trace w) @ [input]
     \<and> limited (trace w1) = limited (trace w) @ pre \<and> (\<forall>x\<in>set pre. fst x = rlBucket st)"
proof -
  obtain result err where h: "get_object E (calls w) input = (result, err)" by force
  let ?w0 = "remote_call (EvGetObject input) w"
  show ?thesis
  proof (cases err)
    case (Some e')
    with h assms(1) have e': "e' = e" by (simp add: get_attempt_error_def)
    from Some h assms(2) e' have "GetObjectContent_loop E st input i obj w = Some ((obj, ?w0), Some e)"
      by (subst GetObjectContent_loop.simps) (simp add: GetObjectWithContext_def)
    moreover have "calls ?w0 = Suc (calls w)"
      "schedule (trace ?w0) = schedule (trace w) @ [Attempt]"
      "get_requests (trace ?w0) = get_requests (trace w) @ [input]"
      "limited (trace ?w0) = limited (trace w) @ []"
      by (simp_all add: remote_call_def schedule_def get_requests_def limited_def)
    ultimately show ?thesis by force
  next
    case None
    with h assms(1) obtain d where
      cl: "\<not> Int64Value (goo_ContentLength result) < 0" and b: "goo_Body result = Some (d, Some e)"
      by (auto simp: get_attempt_error_def split: if_splits option.splits)
    let ?w1 = "emit (EvLimit (rlBucket st) (length d)) ?w0"
    from None h cl b assms(2) have "GetObjectContent_loop E st input i obj w = Some ((obj, ?w1), Some e)"
      by (subst GetObjectContent_loop.simps)
        (simp add: GetObjectWithContext_def io_Copy_ratelimited_def)
    moreover have "calls ?w1 = Suc (calls w)"
      "schedule (trace ?w1) = schedule (trace w) @ [Attempt]"
      "get_requests (trace ?w1) = get_requests (trace w) @ [input]"
      "limited (trace ?w1) = limited (trace w) @ [(rlBucket st, length d)]"
      by (simp_all add: emit_def remote_call_def schedule_def get_requests_def limited_def)
    ultimately show ?thesis by force
  qed
qed

lemma GetObjectContent_loop_panic:
  assumes "get_attempt_error (get_object E (calls w) input) = None"
    and "\<not> get_attempt_ok (get_object E (calls w) input)"
  shows "GetObjectContent_loop E st input i obj w = None"
proof -
  obtain result err where h: "get_object E (calls w) input = (result, err)" by force
  with assms have "err = None"
    and "Int64Value (goo_ContentLength result) < 0 \<or> goo_Body result = None"
    by (auto simp: get_attempt_error_def get_attempt_ok_def split: if_splits option.splits)
  with h show ?thesis
    by (subst GetObjectContent_loop.simps) (auto simp: GetObjectWithContext_def)
qed

lemma GetObjectContent_loop_skip:
  "\<forall>j<k. get_attempt_error (get_object E (calls w + j) input) \<noteq> None \<Longrightarrow>
   i + k \<le> retryCnt st \<Longrightarrow>
   \<exists>w2 pre. GetObjectContent_loop E st input i obj w =
       GetObjectContent_loop E st input (i + k) obj w2
     \<and> calls w2 = calls w + k
     \<and> schedule (trace w2) = schedule (trace w) @ failed_rounds k (retryInterval st)
     \<and> get_requests (trace w2) = get_requests (trace w) @ replicate k input
     \<and> limited (trace w2) = limited (trace w) @ pre \<and> (\<forall>x\<in>set pre. fst x = rlBucket st)"
proof (induction k arbitrary: i w)
  case 0
  have "limited (trace w) = limited (trace w) @ []" by simp
  then show ?case by (force simp: failed_rounds_0)
next
  case (Suc k)
  have f0: "get_attempt_error (get_object E (calls w) input) \<noteq> None"
    and fs: "\<forall>j<k. get_attempt_error (get_object E (Suc (calls w) + j) input) \<noteq> None"
    using shift_fails [OF Suc.prems(1)] by blast+
  from Suc.prems have lt: "i < retryCnt st" by simp
  from GetObjectContent_loop_retry [OF f0 lt, of obj] obtain w1 pre1 where
    s1: "GetObjectContent_loop E st input i obj w = GetObjectContent_loop E st input (Suc i) obj w1"
    and c1: "calls w1 = Suc (calls w)"
    and t1: "schedule (trace w1) = schedule (trace w) @ [Attempt, Sleep (retryInterval st)]"
    and g1: "get_requests (trace w1) = get_requests (trace w) @ [input]"
    and l1: "limited (trace w1) = limited (trace w) @ pre1" "\<forall>x\<in>set pre1. fst x = rlBucket st"
    by blast
  from fs have "\<forall>j<k. get_attempt_error (get_object E (calls w1 + j) input) \<noteq> None"
    by (simp only: c1)
  moreover from Suc.prems have "Suc i + k \<le> retryCnt st" by simp
  ultimately obtain w2 pre2 where
    s2: "GetObjectContent_loop E st input (Suc i) obj w1 =
         GetObjectContent_loop E st input (Suc i + k) obj w2"
    and c2: "calls w2 = calls w1 + k"
    and t2: "schedule (trace w2) = schedule (trace w1) @ failed_rounds k (retryInterval st)"
    and g2: "get_requests (trace w2) = get_requests (trace w1) @ replicate k input"
    and l2: "limited (trace w2) = limited (trace w1) @ pre2" "\<forall>x\<in>set pre2. fst x = rlBucket st"
    using Suc.IH by blast
  have "GetObjectContent_loop E st input i obj w =
      GetObjectContent_loop E st input (i + Suc k) obj w2"
    using s1 s2 by simp
  moreover have "calls w2 = calls w + Suc k" using c1 c2 by simp
  moreover have "schedule (trace w2) = schedule (trace w) @ failed_rounds (Suc k) (retryInterval st)"
    using t1 t2 by (simp add: failed_rounds_Suc)
  moreover have "get_requests (trace w2) = get_requests (trace w) @ replicate (Suc k) input"
    using g1 g2 by (simp add: replicate_append_same)
  moreover have "limited (trace w2) = limited (trace w) @ (pre1 @ pre2)"
    using l1 l2 by simp
  moreover have "\<forall>x\<in>set (pre1 @ pre2). fst x = rlBucket st"
    using l1 l2 by auto
  ultimately show ?case by blast
qed

text \<open>
  What a run of the loop that ends without error has done: one get request per attempt;
  the last one was answered without error and its body ended without error; the object
  is the given one with the content set to exactly the bytes of that body and the
  metadata taken from that answer; every use of a limiter was of the client's bucket, the
  last one for the bytes of the content.
\<close>

lemma GetObjectContent_loop_success:
  "GetObjectContent_loop E st input i obj w = Some ((obj', w'), None) \<Longrightarrow> i \<le> retryCnt st \<Longrightarrow>
   \<exists>result d pre. calls w < calls w'
     \<and> get_object E (calls w' - 1) input = (result, None)
     \<and> goo_Body result = Some (d, None)
     \<and> obj' = content_update E result d obj
     \<and> get_requests (trace w') = get_requests (trace w) @ replicate (calls w' - calls w) input
     \<and> limited (trace w') = limited (trace w) @ pre @ [(rlBucket st, length d)]
     \<and> (\<forall>x\<in>set pre. fst x = rlBucket st)"
proof (induction n \<equiv> "retryCnt st - i" arbitrary: i w)
  case 0
  then have i: "i = retryCnt st" by simp
  obtain result err where h: "get_object E (calls w) input = (result, err)" by force
  show ?case
  proof (cases "get_attempt_error (get_object E (calls w) input)")
    case (Some e)
    from GetObjectContent_loop_last [OF Some i, of obj] "0.prems"(1) show ?thesis by auto
  next
    case None
    show ?thesis
    proof (cases "get_attempt_ok (get_object E (calls w) input)")
      case False
      from GetObjectContent_loop_panic [OF None False] "0.prems"(1) show ?thesis by simp
    next
      case True
      with h have "get_attempt_ok (result, err)" by simp
      from GetObjectContent_loop_ok [OF h this, of st i obj] "0.prems"(1)
      obtain d where d: "goo_Body result = Some (d, None)" "err = None"
        "obj' = content_update E result d obj"
        "w' = emit (EvLimit (rlBucket st) (length d)) (remote_call (EvGetObject input) w)"
        by auto
      have "calls w < calls w'" "calls w' - 1 = calls w" "calls w' - calls w = 1"
        "get_requests (trace w') = get_requests (trace w) @ [input]"
        "limited (trace w') = limited (trace w) @ [] @ [(rlBucket st, length d)]"
        by (simp_all add: d(4) emit_def remote_call_def get_requests_def limited_def)
      with h d show ?thesis by force
    qed
  qed
next
  case (Suc n)
  obtain result err where h: "get_object E (calls w) input = (result, err)" by force
  show ?case
  proof (cases "get_attempt_error (get_object E (calls w) input)")
    case (Some e)
    from Suc.hyps(2) have lt: "i < retryCnt st" and n: "n = retryCnt st - Suc i" by simp_all
    from Some have ne: "get_attempt_error (get_object E (calls w) input) \<noteq> None" by simp
    from GetObjectContent_loop_retry [OF ne lt, of obj] obtain w1 pre1 where
      s1: "GetObjectContent_loop E st input i obj w = GetObjectContent_loop E st input (Suc i) obj w1"
      and c1: "calls w1 = Suc (calls w)"
      and g1: "get_requests (trace w1) = get_requests (trace w) @ [input]"
      and l1: "limited (trace w1) = limited (trace w) @ pre1" "\<forall>x\<in>set pre1. fst x = rlBucket st"
      by blast
    from s1 Suc.prems(1) have "GetObjectContent_loop E st input (Suc i) obj w1 = Some ((obj', w'), None)"
      by simp
    from Suc.hyps(1) [OF n this] lt obtain r d pre2 where
      c2: "calls w1 < calls w'"
      and r: "get_object E (calls w' - 1) input = (r, None)" "goo_Body r = Some (d, None)"
        "obj' = content_update E r d obj"
      and g2: "get_requests (trace w') = get_requests (trace w1) @ replicate (calls w' - calls w1) input"
      and l2: "limited (trace w') = limited (trace w1) @ pre2 @ [(rlBucket st, length d)]"
        "\<forall>x\<in>set pre2. fst x = rlBucket st"
      by auto
    from c1 c2 have cw: "calls w < calls w'" and "calls w' - calls w = Suc (calls w' - calls w1)"
      by simp_all
    with g1 g2 have g: "get_requests (trace w') = get_requests (trace w) @ replicate (calls w' - calls w) input"
      by (simp add: replicate_append_same)
    have l: "limited (trace w') = limited (trace w) @ (pre1 @ pre2) @ [(rlBucket st, length d)]"
      using l1 l2 by simp
    have "\<forall>x\<in>set (pre1 @ pre2). fst x = rlBucket st" using l1 l2 by auto
    with cw r g l show ?thesis by blast
  next
    case None
    show ?thesis
    proof (cases "get_attempt_ok (get_object E (calls w) input)")
      case False
      from GetObjectContent_loop_panic [OF None False] Suc.prems(1) show ?thesis by simp
    next
      case True
      with h have "get_attempt_ok (result, err)" by simp
      from GetObjectContent_loop_ok [OF h this, of st i obj] Suc.prems(1)
      obtain d where d: "goo_Body result = Some (d, None)" "err = None"
        "obj' = content_update E result d obj"
        "w' = emit (EvLimit (rlBucket st) (length d)) (remote_call (EvGetObject input) w)"
        by auto
      have "calls w < calls w'" "calls w' - 1 = calls w" "calls w' - calls w = 1"
        "get_requests (trace w') = get_requests (trace w) @ [input]"
        "limited (trace w') = limited (trace w) @ [] @ [(rlBucket st, length d)]"
        by (simp_all add: d(4) emit_def remote_call_def get_requests_def limited_def)
      with h d show ?thesis by force
    qed
  qed
qed

subsection \<open>Paging and the loop of \<open>List\<close>\<close>

lemma send_versions_trace:
  "send_versions E ovs w = w\<lparr>trace := trace w @ map (\<lambda>ov. EvSend (version_object E ov)) ovs\<rparr>"
  by (induction ovs arbitrary: w) (simp_all add: emit_def)

lemma listObjectsFn_page:
  "listObjectsFn E p lastPage (st, w) =
     ((st\<lparr>listMarker := lvo_VersionIdMarker p\<rparr>, w\<lparr>trace := trace w @ page_events E p\<rparr>),
      \<not> lastPage)"
  by (simp add: listObjectsFn_def send_versions_trace emit_def page_events_def)

lemma cursor_after_simps:
  "cursor_after m (PageFail e) = m"
  "cursor_after m (PageLast p) = lvo_VersionIdMarker p"
  "cursor_after m (PageMore p rest) = cursor_after (lvo_VersionIdMarker p) rest"
  by (simp_all add: cursor_after_def)

lemma pages_loop_listObjectsFn:
  "pages_loop run (listObjectsFn E) (st, w) =
     ((st\<lparr>listMarker := cursor_after (listMarker st) run\<rparr>,
       w\<lparr>trace := trace w @ run_events E run\<rparr>), run_error run)"
proof (induction run arbitrary: st w)
  case (PageFail e)
  show ?case by (simp add: cursor_after_simps)
next
  case (PageLast p)
  show ?case by (simp add: cursor_after_simps listObjectsFn_page)
next
  case (PageMore p rest)
  show ?case
    by (simp add: cursor_after_simps listObjectsFn_page PageMore.IH emit_def)
qed

lemma paging_call:
  "ListObjectVersionsPagesWithContext E (list_input st) (listObjectsFn E) (st, w) =
     ((st\<lparr>listMarker := cursor_after (listMarker st) (list_pages E (calls w) (list_input st))\<rparr>,
       w\<lparr>calls := Suc (calls w),
         trace := trace w @ EvListVersions (list_input st)
           # run_events E (list_pages E (calls w) (list_input st))\<rparr>),
      run_error (list_pages E (calls w) (list_input st)))"
  by (simp add: ListObjectVersionsPagesWithContext_def pages_loop_listObjectsFn remote_call_def)

lemma list_input_cursor:
  "list_input (st\<lparr>listMarker := m\<rparr>) = (list_input st)\<lparr>lvi_VersionIdMarker := m\<rparr>"
  by (simp add: list_input_def)

lemma schedule_Cons: "schedule (e # tr) = ticks_of e @ schedule tr"
  by (simp add: schedule_def)

lemma schedule_Nil: "schedule [] = []"
  by (simp add: schedule_def)

lemma schedule_page_events: "schedule (page_events E p) = []"
  by (simp add: schedule_def page_events_def)

lemma schedule_run_events: "schedule (run_events E run) = []"
  by (induction run) (simp_all add: schedule_append schedule_page_events schedule_Cons schedule_Nil)

lemma sent_append: "sent (a @ b) = sent a @ sent b"
  by (simp add: sent_def)

lemma sent_Cons: "sent (e # tr) = sent_of e @ sent tr"
  by (simp add: sent_def)

lemma sent_Nil: "sent [] = []"
  by (simp add: sent_def)

lemma sent_sends: "sent (map (\<lambda>ov. EvSend (f ov)) ovs) = map f ovs"
  by (induction ovs) (simp_all add: sent_def)

lemma sent_page_events: "sent (page_events E p) = map (version_object E) (lvo_Versions p)"
  by (simp add: page_events_def sent_append sent_sends) (simp add: sent_def)

lemma sent_run_events:
  "sent (run_events E run) = concat (map (\<lambda>p. map (version_object E) (lvo_Versions p)) (run_pages run))"
  by (induction run) (simp_all add: sent_append sent_page_events sent_Cons sent_Nil)

lemma List_loop_retry:
  assumes "list_pages E (calls w) (list_input st) = run"
    and "run_error run \<noteq> None" and "i < retryCnt st"
  shows "List_loop E i (st, w) =
     List_loop E (Suc i)
       (st\<lparr>listMarker := cursor_after (listMarker st) run\<rparr>,
        time_Sleep (retryInterval st)
          (w\<lparr>calls := Suc (calls w),
             trace := trace w @ EvListVersions (list_input st) # run_events E run\<rparr>))"
  using assms by (subst List_loop.simps) (simp add: paging_call)

lemma List_loop_done:
  assumes "list_pages E (calls w) (list_input st) = run"
    and "run_error run = None \<or> i = retryCnt st"
  shows "List_loop E i (st, w) =
     ((st\<lparr>listMarker := cursor_after (listMarker st) run\<rparr>,
       w\<lparr>calls := Suc (calls w),
         trace := trace w @ EvListVersions (list_input st) # run_events E run\<rparr>),
      run_error run)"
  using assms by (subst List_loop.simps) (auto simp: paging_call)

lemma List_loop_skip:
  "\<forall>j<k. \<forall>inp. run_error (list_pages E (calls w + j) inp) \<noteq> None \<Longrightarrow>
   i + k \<le> retryCnt st \<Longrightarrow>
   \<exists>st2 w2. List_loop E i (st, w) = List_loop E (i + k) (st2, w2)
     \<and> calls w2 = calls w + k
     \<and> schedule (trace w2) = schedule (trace w) @ failed_rounds k (retryInterval st)
     \<and> retryCnt st2 = retryCnt st \<and> retryInterval st2 = retryInterval st"
proof (induction k arbitrary: i st w)
  case 0
  then show ?case by (auto simp: failed_rounds_0)
next
  case (Suc k)
  define run where "run = list_pages E (calls w) (list_input st)"
  let ?st1 = "st\<lparr>listMarker := cursor_after (listMarker st) run\<rparr>"
  let ?w1 = "time_Sleep (retryInterval st)
     (w\<lparr>calls := Suc (calls w), trace := trace w @ EvListVersions (list_input st) # run_events E run\<rparr>)"
  have f0: "\<forall>inp. run_error (list_pages E (calls w) inp) \<noteq> None"
    and fs: "\<forall>j<k. \<forall>inp. run_error (list_pages E (Suc (calls w) + j) inp) \<noteq> None"
    using shift_fails [OF Suc.prems(1)] by blast+
  from f0 have e: "run_error run \<noteq> None" by (simp add: run_def)
  from Suc.prems have lt: "i < retryCnt st" by simp
  have s1: "List_loop E i (st, w) = List_loop E (Suc i) (?st1, ?w1)"
    using List_loop_retry [OF run_def [symmetric] e lt] .
  have c1: "calls ?w1 = Suc (calls w)"
    by (simp add: time_Sleep_def emit_def)
  have t1: "schedule (trace ?w1) = schedule (trace w) @ [Attempt, Sleep (retryInterval st)]"
    by (simp add: time_Sleep_def emit_def schedule_append schedule_Cons schedule_Nil
        schedule_run_events)
  from fs have "\<forall>j<k. \<forall>inp. run_error (list_pages E (calls ?w1 + j) inp) \<noteq> None"
    by (simp only: c1)
  moreover from Suc.prems have "Suc i + k \<le> retryCnt ?st1" by simp
  ultimately obtain st2 w2 where
    "List_loop E (Suc i) (?st1, ?w1) = List_loop E (Suc i + k) (st2, w2)"
    "calls w2 = calls ?w1 + k"
    "schedule (trace w2) = schedule (trace ?w1) @ failed_rounds k (retryInterval ?st1)"
    "retryCnt st2 = retryCnt ?st1" "retryInterval st2 = retryInterval ?st1"
    using Suc.IH [of ?w1 "Suc i" ?st1] by blast
  then show ?case
    using s1 c1 t1 by (auto simp: failed_rounds_Suc)
qed

subsection \<open>Failing \<open>k\<close> times, then succeeding: one lemma for each operation\<close>

lemma PutObject_retry_then_success:
  assumes "k \<le> retryCnt st" and "Content obj = Some c" and "Key obj = Some key"
    and "\<forall>j<k. put_object E (calls w + j) (put_input E st obj c key) \<noteq> None"
    and "put_object E (calls w + k) (put_input E st obj c key) = None"
  shows "\<exists>w'. PutObject E st obj w = Some (w', None) \<and> calls w' = calls w + Suc k
     \<and> schedule (trace w') = schedule (trace w) @ failed_rounds k (retryInterval st) @ [Attempt]"
proof -
  from PutObject_loop_skip [OF assms(4), of 0 st] assms(1) obtain w2 where
    s: "PutObject_loop E st (put_input E st obj c key) 0 w =
        PutObject_loop E st (put_input E st obj c key) k w2"
    and c: "calls w2 = calls w + k"
    and t: "schedule (trace w2) = schedule (trace w) @ failed_rounds k (retryInterval st)"
    by auto
  from assms(5) c have "put_object E (calls w2) (put_input E st obj c key) = None" by simp
  from PutObject_loop_ok [OF this] s assms(2,3) c t show ?thesis
    by (simp add: PutObject_def remote_call_def schedule_append schedule_Cons schedule_Nil)
qed

lemma DeleteObject_retry_then_success:
  assumes "k \<le> retryCnt st"
    and "\<forall>j<k. delete_object E (calls w + j) (delete_input st obj) \<noteq> None"
    and "delete_object E (calls w + k) (delete_input st obj) = None"
  shows "\<exists>w'. DeleteObject E st obj w = (w', None) \<and> calls w' = calls w + Suc k
     \<and> schedule (trace w') = schedule (trace w) @ failed_rounds k (retryInterval st) @ [Attempt]"
proof -
  from DeleteObject_loop_skip [OF assms(2), of 0 st] assms(1) obtain w2 where
    s: "DeleteObject_loop E st (delete_input st obj) 0 w =
        DeleteObject_loop E st (delete_input st obj) k w2"
    and c: "calls w2 = calls w + k"
    and t: "schedule (trace w2) = schedule (trace w) @ failed_rounds k (retryInterval st)"
    by auto
  from assms(3) c have "delete_object E (calls w2) (delete_input st obj) = None" by simp
  from DeleteObject_loop_ok [OF this] s c t show ?thesis
    by (simp add: DeleteObject_def remote_call_def schedule_append schedule_Cons schedule_Nil)
qed

lemma GetObjectMeta_retry_then_success:
  assumes "k \<le> retryCnt st"
    and "\<forall>j<k. snd (head_object E (calls w + j) (head_input st obj)) \<noteq> None"
    and "snd (head_object E (calls w + k) (head_input st obj)) = None"
  shows "\<exists>obj' w'. GetObjectMeta E st obj w = ((obj', w'), None) \<and> calls w' = calls w + Suc k
     \<and> schedule (trace w') = schedule (trace w) @ failed_rounds k (retryInterval st) @ [Attempt]"
proof -
  from GetObjectMeta_loop_skip [OF assms(2), of 0 st obj] assms(1) obtain w2 where
    s: "GetObjectMeta_loop E st (head_input st obj) 0 obj w =
        GetObjectMeta_loop E st (head_input st obj) k obj w2"
    and c: "calls w2 = calls w + k"
    and t: "schedule (trace w2) = schedule (trace w) @ failed_rounds k (retryInterval st)"
    by auto
  from assms(3) c obtain result where
    "head_object E (calls w2) (head_input st obj) = (result, None)"
    by (cases "head_object E (calls w2) (head_input st obj)") auto
  from GetObjectMeta_loop_ok [OF this] s c t show ?thesis
    by (simp add: GetObjectMeta_def remote_call_def schedule_append schedule_Cons schedule_Nil)
qed

lemma GetObjectContent_retry_then_success:
  assumes "k \<le> retryCnt st"
    and "\<forall>j<k. get_attempt_error (get_object E (calls w + j) (get_input st obj)) \<noteq> None"
    and "get_attempt_ok (get_object E (calls w + k) (get_input st obj))"
  shows "\<exists>obj' w'. GetObjectContent E st obj w = Some ((obj', w'), None)
     \<and> calls w' = calls w + Suc k
     \<and> schedule (trace w') = schedule (trace w) @ failed_rounds k (retryInterval st) @ [Attempt]"
proof -
  from GetObjectContent_loop_skip [OF assms(2), of 0 st obj] assms(1) obtain w2 where
    s: "GetObjectContent_loop E st (get_input st obj) 0 obj w =
        GetObjectContent_loop E st (get_input st obj) k obj w2"
    and c: "calls w2 = calls w + k"
    and t: "schedule (trace w2) = schedule (trace w) @ failed_rounds k (retryInterval st)"
    by auto
  obtain result err where h: "get_object E (calls w2) (get_input st obj) = (result, err)"
    by force
  with assms(3) c have "get_attempt_ok (result, err)" by simp
  from GetObjectContent_loop_ok [OF h this, of st k obj] s c t show ?thesis
    by (auto simp: GetObjectContent_def remote_call_def emit_def schedule_append schedule_Cons
        schedule_Nil)
qed

lemma List_retry_then_success:
  assumes "k \<le> retryCnt st"
    and "\<forall>j<k. \<forall>inp. run_error (list_pages E (calls w + j) inp) \<noteq> None"
    and "\<forall>inp. run_error (list_pages E (calls w + k) inp) = None"
  shows "\<exists>st' w'. List_s3v E (st, w) = ((st', w'), None) \<and> calls w' = calls w + Suc k
     \<and> schedule (trace w') = schedule (trace w) @ failed_rounds k (retryInterval st) @ [Attempt]"
proof -
  from List_loop_skip [OF assms(2), of 0 st] assms(1) obtain st2 w2 where
    s: "List_loop E 0 (st, w) = List_loop E k (st2, w2)"
    and c: "calls w2 = calls w + k"
    and t: "schedule (trace w2) = schedule (trace w) @ failed_rounds k (retryInterval st)"
    by auto
  define run where "run = list_pages E (calls w2) (list_input st2)"
  from assms(3) c have "run_error run = None" by (simp add: run_def)
  then have "run_error run = None \<or> k = retryCnt st2" by simp
  from List_loop_done [OF run_def [symmetric] this] \<open>run_error run = None\<close> s c t show ?thesis
    by (simp add: List_s3v_def schedule_append schedule_Cons schedule_Nil schedule_run_events)
qed

subsection \<open>Failing on every attempt: one lemma for each operation\<close>

lemma all_fail_skip:
  fixes n :: nat
  assumes "\<forall>j\<le>n. f j = Some (e j)"
  shows "\<forall>j<n. f j \<noteq> None" and "f n = Some (e n)"
proof -
  show "\<forall>j<n. f j \<noteq> None"
  proof (intro allI impI)
    fix j assume "j < n"
    then have "j \<le> n" by simp
    with assms have "f j = Some (e j)" by blast
    then show "f j \<noteq> None" by simp
  qed
  from assms show "f n = Some (e n)" by simp
qed

lemma PutObject_retries_exhausted:
  assumes "Content obj = Some c" and "Key obj = Some key"
    and "\<forall>j\<le>retryCnt st. put_object E (calls w + j) (put_input E st obj c key) = Some (e j)"
  shows "\<exists>w'. PutObject E st obj w = Some (w', Some (e (retryCnt st)))
     \<and> calls w' = calls w + Suc (retryCnt st)
     \<and> schedule (trace w') =
         schedule (trace w) @ failed_rounds (retryCnt st) (retryInterval st) @ [Attempt]"
proof -
  note f = all_fail_skip [OF assms(3)]
  from PutObject_loop_skip [OF f(1), where i=0 and st=st] obtain w2 where
    s: "PutObject_loop E st (put_input E st obj c key) 0 w =
        PutObject_loop E st (put_input E st obj c key) (retryCnt st) w2"
    and c: "calls w2 = calls w + retryCnt st"
    and t: "schedule (trace w2) = schedule (trace w) @ failed_rounds (retryCnt st) (retryInterval st)"
    by auto
  from f(2) c have "put_object E (calls w2) (put_input E st obj c key) = Some (e (retryCnt st))"
    by simp
  from PutObject_loop_last [OF this refl] s assms(1,2) c t show ?thesis
    by (simp add: PutObject_def remote_call_def schedule_append schedule_Cons schedule_Nil)
qed

lemma DeleteObject_retries_exhausted:
  assumes "\<forall>j\<le>retryCnt st. delete_object E (calls w + j) (delete_input st obj) = Some (e j)"
  shows "\<exists>w'. DeleteObject E st obj w = (w', Some (e (retryCnt st)))
     \<and> calls w' = calls w + Suc (retryCnt st)
     \<and> schedule (trace w') =
         schedule (trace w) @ failed_rounds (retryCnt st) (retryInterval st) @ [Attempt]"
proof -
  note f = all_fail_skip [OF assms(1)]
  from DeleteObject_loop_skip [OF f(1), where i=0 and st=st] obtain w2 where
    s: "DeleteObject_loop E st (delete_input st obj) 0 w =
        DeleteObject_loop E st (delete_input st obj) (retryCnt st) w2"
    and c: "calls w2 = calls w + retryCnt st"
    and t: "schedule (trace w2) = schedule (trace w) @ failed_rounds (retryCnt st) (retryInterval st)"
    by auto
  from f(2) c have "delete_object E (calls w2) (delete_input st obj) = Some (e (retryCnt st))"
    by simp
  from DeleteObject_loop_last [OF this refl] s c t show ?thesis
    by (simp add: DeleteObject_def remote_call_def schedule_append schedule_Cons schedule_Nil)
qed

lemma GetObjectMeta_retries_exhausted:
  assumes "\<forall>j\<le>retryCnt st. snd (head_object E (calls w + j) (head_input st obj)) = Some (e j)"
  shows "\<exists>w'. GetObjectMeta E st obj w = ((obj, w'), Some (e (retryCnt st)))
     \<and> calls w' = calls w + Suc (retryCnt st)
     \<and> schedule (trace w') =
         schedule (trace w) @ failed_rounds (retryCnt st) (retryInterval st) @ [Attempt]"
proof -
  note f = all_fail_skip [OF assms(1)]
  from GetObjectMeta_loop_skip [OF f(1), where i=0 and st=st and obj=obj] obtain w2 where
    s: "GetObjectMeta_loop E st (head_input st obj) 0 obj w =
        GetObjectMeta_loop E st (head_input st obj) (retryCnt st) obj w2"
    and c: "calls w2 = calls w + retryCnt st"
    and t: "schedule (trace w2) = schedule (trace w) @ failed_rounds (retryCnt st) (retryInterval st)"
    by auto
  from f(2) c have "snd (head_object E (calls w2) (head_input st obj)) = Some (e (retryCnt st))"
    by simp
  from GetObjectMeta_loop_last [OF this refl] s c t show ?thesis
    by (simp add: GetObjectMeta_def remote_call_def schedule_append schedule_Cons schedule_Nil)
qed

lemma GetObjectContent_retries_exhausted:
  assumes "\<forall>j\<le>retryCnt st.
      get_attempt_error (get_object E (calls w + j) (get_input st obj)) = Some (e j)"
  shows "\<exists>w'. GetObjectContent E st obj w = Some ((obj, w'), Some (e (retryCnt st)))
     \<and> calls w' = calls w + Suc (retryCnt st)
     \<and> schedule (trace w') =
         schedule (trace w) @ failed_rounds (retryCnt st) (retryInterval st) @ [Attempt]"
proof -
  note f = all_fail_skip [OF assms(1)]
  from GetObjectContent_loop_skip [OF f(1), where i=0 and st=st and obj=obj] obtain w2 where
    s: "GetObjectContent_loop E st (get_input st obj) 0 obj w =
        GetObjectContent_loop E st (get_input st obj) (retryCnt st) obj w2"
    and c: "calls w2 = calls w + retryCnt st"
    and t: "schedule (trace w2) = schedule (trace w) @ failed_rounds (retryCnt st) (retryInterval st)"
    by auto
  from f(2) c have
    "get_attempt_error (get_object E (calls w2) (get_input st obj)) = Some (e (retryCnt st))"
    by simp
  from GetObjectContent_loop_last [OF this refl, where obj=obj] s c t show ?thesis
    by (auto simp: GetObjectContent_def)
qed

lemma List_retries_exhausted:
  assumes "\<forall>j\<le>retryCnt st. \<forall>inp. run_error (list_pages E (calls w + j) inp) = Some (e j)"
  shows "\<exists>st' w'. List_s3v E (st, w) = ((st', w'), Some (e (retryCnt st)))
     \<and> calls w' = calls w + Suc (retryCnt st)
     \<and> schedule (trace w') =
         schedule (trace w) @ failed_rounds (retryCnt st) (retryInterval st) @ [Attempt]"
proof -
  from assms have f1: "\<forall>j<retryCnt st. \<forall>inp. run_error (list_pages E (calls w + j) inp) \<noteq> None"
    and f2: "\<forall>inp. run_error (list_pages E (calls w + retryCnt st) inp) = Some (e (retryCnt st))"
    by (auto simp: less_imp_le)
  from List_loop_skip [OF f1, where i=0 and st=st] obtain st2 w2 where
    s: "List_loop E 0 (st, w) = List_loop E (retryCnt st) (st2, w2)"
    and c: "calls w2 = calls w + retryCnt st"
    and t: "schedule (trace w2) = schedule (trace w) @ failed_rounds (retryCnt st) (retryInterval st)"
    and r: "retryCnt st2 = retryCnt st"
    by auto
  define run where "run = list_pages E (calls w2) (list_input st2)"
  from f2 c have e: "run_error run = Some (e (retryCnt st))" by (simp add: run_def)
  from r have "run_error run = None \<or> retryCnt st = retryCnt st2" by simp
  from List_loop_done [OF run_def [symmetric] this] e s c t show ?thesis
    by (simp add: List_s3v_def schedule_append schedule_Cons schedule_Nil schedule_run_events)
qed

subsection \<open>What reaches the remote store and the limiter\<close>

lemma PutObject_loop_put_bodies:
  "calls w < calls (fst (PutObject_loop E st input i w)) \<and>
   put_bodies (trace (fst (PutObject_loop E st input i w))) =
     put_bodies (trace w)
       @ replicate (calls (fst (PutObject_loop E st input i w)) - calls w) (poi_Body input)"
proof (induction n \<equiv> "retryCnt st - i" arbitrary: i w)
  case 0
  then have "PutObject_loop E st input i w =
      (remote_call (EvPutObject input) w,
       if i = retryCnt st then put_object E (calls w) input else None)"
    by (subst PutObject_loop.simps) (auto simp: PutObjectWithContext_def)
  then show ?case
    by (simp add: remote_call_def put_bodies_def)
next
  case (Suc n)
  show ?case
  proof (cases "put_object E (calls w) input")
    case None
    then show ?thesis
      by (simp add: PutObject_loop_ok remote_call_def put_bodies_def)
  next
    case (Some e)
    let ?w1 = "time_Sleep (retryInterval st) (remote_call (EvPutObject input) w)"
    let ?w' = "fst (PutObject_loop E st input (Suc i) ?w1)"
    from Suc.hyps(2) have lt: "i < retryCnt st" and n: "n = retryCnt st - Suc i" by simp_all
    from Some have "put_object E (calls w) input \<noteq> None" by simp
    note s = PutObject_loop_retry [OF this lt]
    have c1: "calls ?w1 = Suc (calls w)"
      and b1: "put_bodies (trace ?w1) = put_bodies (trace w) @ [poi_Body input]"
      by (simp_all add: time_Sleep_def emit_def remote_call_def put_bodies_def)
    from Suc.hyps(1) [OF n, of ?w1] have lt': "calls ?w1 < calls ?w'"
      and b: "put_bodies (trace ?w') =
        put_bodies (trace ?w1) @ replicate (calls ?w' - calls ?w1) (poi_Body input)"
      by simp_all
    from lt' c1 have "calls ?w' - calls w = Suc (calls ?w' - calls ?w1)" by simp
    with lt' c1 b b1 show ?thesis
      by (simp add: s replicate_append_same)
  qed
qed

subsection \<open>Percent-decoding\<close>

lemma hexdigit_ishex: "n < 16 \<Longrightarrow> ishex (hexdigit u n)"
  by (auto simp: hexdigit_def ishex_def)

lemma hexdigit_unhex: "n < 16 \<Longrightarrow> unhex (hexdigit u n) = n"
  by (auto simp: hexdigit_def unhex_def)

lemma nibble_bounds: "(of_char c :: nat) div 16 < 16" "(of_char c :: nat) mod 16 < 16"
proof -
  have "(of_char c :: nat) < 16 * 16" by simp
  then show "(of_char c :: nat) div 16 < 16" by (rule less_mult_imp_div_less)
  show "(of_char c :: nat) mod 16 < 16" by simp
qed

lemma escape_error_pct_encode:
  assumes "esc CHR ''%''"
  shows "escape_error (pct_encode esc u sp key) = None"
proof (induction key arbitrary: sp)
  case Nil
  show ?case by simp
next
  case (Cons c key)
  from assms have "\<not> esc c \<Longrightarrow> c \<noteq> CHR ''%''" by auto
  with Cons show ?case
    by (simp add: hexdigit_ishex nibble_bounds)
qed

lemma unescape_bytes_pct_encode:
  assumes "esc CHR ''%''" and "esc CHR ''+''"
  shows "unescape_bytes (pct_encode esc u sp key) = key"
proof (induction key arbitrary: sp)
  case Nil
  show ?case by simp
next
  case (Cons c key)
  from assms have "\<not> esc c \<Longrightarrow> c \<noteq> CHR ''%'' \<and> c \<noteq> CHR ''+''" by auto
  with Cons show ?case
    by (simp add: hexdigit_unhex nibble_bounds)
qed

lemma QueryUnescape_error_empty:
  "snd (QueryUnescape s) \<noteq> None \<Longrightarrow> fst (QueryUnescape s) = []"
  by (simp add: QueryUnescape_def split: option.splits)

lemma listObjectsFn_sent:
  "sent (trace (snd (fst (listObjectsFn E p lastPage (st, w))))) =
     sent (trace w) @ map (version_object E) (lvo_Versions p)"
  by (simp add: listObjectsFn_page sent_append sent_page_events)

subsection \<open>The order of events in a paging run\<close>

lemma cursor_written_append:
  "cursor_written_before_next_page prev (a @ b) =
     (cursor_written_before_next_page prev a
      \<and> cursor_written_before_next_page (last (prev # a)) b)"
  by (induction a arbitrary: prev) simp_all

lemma cursor_written_sends:
  "cursor_written_before_next_page prev (map (\<lambda>ov. EvSend (f ov)) ovs)"
  by (induction ovs arbitrary: prev) simp_all

lemma cursor_written_page_events:
  "cursor_written_before_next_page prev (page_events E p)"
  by (simp add: page_events_def cursor_written_append cursor_written_sends)

lemma last_page_events:
  "last (prev # page_events E p) = EvSetMarker (lvo_VersionIdMarker p)"
  by (simp add: page_events_def)

lemma cursor_written_run_events:
  "cursor_written_before_next_page prev (run_events E run)"
proof (induction run arbitrary: prev)
  case (PageFail e)
  show ?case by simp
next
  case (PageLast p)
  show ?case by (simp add: cursor_written_page_events)
next
  case (PageMore p rest)
  have "cursor_written_before_next_page (last (prev # page_events E p))
      (EvNextPage # run_events E rest)"
    by (simp only: last_page_events) (simp add: PageMore.IH)
  then show ?case
    by (simp add: cursor_written_append cursor_written_page_events)
qed

lemma page_requests_append: "page_requests (a @ b) = page_requests a + page_requests b"
  by (simp add: page_requests_def)

lemma page_requests_page_events: "page_requests (page_events E p) = 0"
  by (simp add: page_requests_def page_events_def comp_def)

lemma page_requests_run_events:
  "run_error run = None \<Longrightarrow> Suc (page_requests (run_events E run)) = length (run_pages run)"
proof (induction run)
  case (PageFail e)
  then show ?case by simp
next
  case (PageLast p)
  show ?case by (simp add: page_requests_page_events)
next
  case (PageMore p rest)
  then have "Suc (page_requests (run_events E rest)) = length (run_pages rest)" by simp
  moreover have "page_requests (EvNextPage # run_events E rest) = Suc (page_requests (run_events E rest))"
    by (simp add: page_requests_def)
  ultimately show ?case
    by (simp add: page_requests_append page_requests_page_events)
qed

lemma List_loop_over:
  assumes "list_pages E (calls w) (list_input st) = run"
    and "run_error run = None \<or> \<not> i < retryCnt st"
  shows "List_loop E i (st, w) =
     ((st\<lparr>listMarker := cursor_after (listMarker st) run\<rparr>,
       w\<lparr>calls := Suc (calls w),
         trace := trace w @ EvListVersions (list_input st) # run_events E run\<rparr>),
      run_error run)"
  using assms by (subst List_loop.simps) (auto simp: paging_call)

text \<open>Every run of the loop starts with a paging call that carries the client's cursor.\<close>

lemma List_loop_first_request:
  "\<exists>rest. trace (snd (fst (List_loop E i (st, w)))) =
     trace w @ EvListVersions (list_input st) # rest"
proof (induction n \<equiv> "retryCnt st - i" arbitrary: i st w)
  case 0
  then have "run_error (list_pages E (calls w) (list_input st)) = None \<or> \<not> i < retryCnt st"
    by simp
  from List_loop_over [OF refl this] show ?case by simp
next
  case (Suc n)
  define run where "run = list_pages E (calls w) (list_input st)"
  show ?case
  proof (cases "run_error run")
    case None
    then have "run_error run = None \<or> \<not> i < retryCnt st" by simp
    from List_loop_over [OF run_def [symmetric] this] show ?thesis by simp
  next
    case (Some e)
    let ?st1 = "st\<lparr>listMarker := cursor_after (listMarker st) run\<rparr>"
    let ?w1 = "time_Sleep (retryInterval st)
       (w\<lparr>calls := Suc (calls w), trace := trace w @ EvListVersions (list_input st) # run_events E run\<rparr>)"
    from Suc.hyps(2) have lt: "i < retryCnt st" and n: "n = retryCnt ?st1 - Suc i" by simp_all
    from Some have "run_error run \<noteq> None" by simp
    note s = List_loop_retry [OF run_def [symmetric] this lt]
    from Suc.hyps(1) [OF n, of ?w1] obtain rest where
      "trace (snd (fst (List_loop E (Suc i) (?st1, ?w1)))) =
         trace ?w1 @ EvListVersions (list_input ?st1) # rest"
      by blast
    then show ?thesis
      by (simp add: s time_Sleep_def emit_def)
  qed
qed

subsection \<open>The limiter uses of \<open>GetObjectContent\<close>, whatever the outcome\<close>

lemma GetObjectContent_loop_attempt:
  assumes "GetObjectContent_loop E st input i obj w = Some ((obj', w'), e)"
    and "i \<le> retryCnt st"
  shows "\<exists>w1. calls w1 = Suc (calls w)
     \<and> limited (trace w1) = limited (trace w) @ drain_use E st input (calls w)
     \<and> (w' = w1 \<or> (i < retryCnt st
          \<and> GetObjectContent_loop E st input (Suc i) obj w1 = Some ((obj', w'), e)))"
proof -
  obtain result err where h: "get_object E (calls w) input = (result, err)" by force
  let ?w0 = "remote_call (EvGetObject input) w"
  have w0: "calls ?w0 = Suc (calls w)" "limited (trace ?w0) = limited (trace w)"
    by (simp_all add: remote_call_def limited_def)
  show ?thesis
  proof (cases err)
    case (Some e')
    with h have du: "drain_use E st input (calls w) = []" by (simp add: drain_use_def)
    show ?thesis
    proof (cases "i < retryCnt st")
      case True
      let ?w1 = "time_Sleep (retryInterval st) ?w0"
      from Some h True have "GetObjectContent_loop E st input i obj w =
          GetObjectContent_loop E st input (Suc i) obj ?w1"
        by (subst GetObjectContent_loop.simps) (simp add: GetObjectWithContext_def)
      with assms(1) True have "i < retryCnt st
          \<and> GetObjectContent_loop E st input (Suc i) obj ?w1 = Some ((obj', w'), e)" by simp
      moreover have "calls ?w1 = Suc (calls w)" "limited (trace ?w1) = limited (trace w)"
        by (simp_all add: time_Sleep_def emit_def remote_call_def limited_def)
      ultimately show ?thesis using du by (intro exI [of _ ?w1]) simp
    next
      case False
      with assms(2) have "i = retryCnt st" by simp
      with Some h have "GetObjectContent_loop E st input i obj w = Some ((obj, ?w0), err)"
        by (subst GetObjectContent_loop.simps) (simp add: GetObjectWithContext_def)
      with assms(1) have "w' = ?w0" by simp
      with w0 du show ?thesis by (intro exI [of _ ?w0]) simp
    qed
  next
    case None
    from None h assms(1) have cl: "\<not> Int64Value (goo_ContentLength result) < 0"
      by (subst (asm) GetObjectContent_loop.simps)
        (auto simp: GetObjectWithContext_def split: if_splits)
    from None h cl assms(1) obtain d e2 where b: "goo_Body result = Some (d, e2)"
      by (subst (asm) GetObjectContent_loop.simps)
        (auto simp: GetObjectWithContext_def split: option.splits)
    let ?w2 = "emit (EvLimit (rlBucket st) (length d)) ?w0"
    from None h cl b have du: "drain_use E st input (calls w) = [(rlBucket st, length d)]"
      by (simp add: drain_use_def)
    have w2: "calls ?w2 = Suc (calls w)"
      "limited (trace ?w2) = limited (trace w) @ [(rlBucket st, length d)]"
      by (simp_all add: emit_def remote_call_def limited_def)
    show ?thesis
    proof (cases "e2 \<noteq> None \<and> i < retryCnt st")
      case True
      let ?w1 = "time_Sleep (retryInterval st) ?w2"
      from None h cl b True have "GetObjectContent_loop E st input i obj w =
          GetObjectContent_loop E st input (Suc i) obj ?w1"
        by (subst GetObjectContent_loop.simps)
          (simp add: GetObjectWithContext_def io_Copy_ratelimited_def)
      with assms(1) True have "i < retryCnt st
          \<and> GetObjectContent_loop E st input (Suc i) obj ?w1 = Some ((obj', w'), e)" by simp
      moreover have "calls ?w1 = Suc (calls w)"
        "limited (trace ?w1) = limited (trace w) @ [(rlBucket st, length d)]"
        by (simp_all add: time_Sleep_def emit_def remote_call_def limited_def)
      ultimately show ?thesis using du by (intro exI [of _ ?w1]) simp
    next
      case False
      with None h cl b have "\<exists>o2 e3. GetObjectContent_loop E st input i obj w = Some ((o2, ?w2), e3)"
        by (subst GetObjectContent_loop.simps)
          (auto simp: GetObjectWithContext_def io_Copy_ratelimited_def)
      with assms(1) have "w' = ?w2" by auto
      with w2 du show ?thesis by (intro exI [of _ ?w2]) simp
    qed
  qed
qed

lemma GetObjectContent_loop_limited:
  "GetObjectContent_loop E st input i obj w = Some ((obj', w'), e) \<Longrightarrow> i \<le> retryCnt st \<Longrightarrow>
   calls w < calls w' \<and>
   limited (trace w') =
     limited (trace w) @ concat (map (drain_use E st input) [calls w..<calls w'])"
proof (induction n \<equiv> "retryCnt st - i" arbitrary: i w)
  case 0
  from GetObjectContent_loop_attempt [OF "0.prems"] "0.hyps" obtain w1 where
    "calls w1 = Suc (calls w)"
    "limited (trace w1) = limited (trace w) @ drain_use E st input (calls w)" "w' = w1"
    by auto
  then show ?case by simp
next
  case (Suc n)
  from GetObjectContent_loop_attempt [OF Suc.prems] obtain w1 where
    c1: "calls w1 = Suc (calls w)"
    and l1: "limited (trace w1) = limited (trace w) @ drain_use E st input (calls w)"
    and d: "w' = w1 \<or> (i < retryCnt st
          \<and> GetObjectContent_loop E st input (Suc i) obj w1 = Some ((obj', w'), e))"
    by blast
  from d show ?case
  proof
    assume "w' = w1"
    with c1 l1 show ?thesis by simp
  next
    assume r: "i < retryCnt st
        \<and> GetObjectContent_loop E st input (Suc i) obj w1 = Some ((obj', w'), e)"
    from Suc.hyps(2) have n: "n = retryCnt st - Suc i" by simp
    from r have "Suc i \<le> retryCnt st" by simp
    from Suc.hyps(1) [OF n conjunct2 [OF r] this]
    have c2: "calls w1 < calls w'"
      and l2: "limited (trace w') =
        limited (trace w1) @ concat (map (drain_use E st input) [calls w1..<calls w'])"
      by simp_all
    from c1 c2 have "[calls w..<calls w'] = calls w # [calls w1..<calls w']"
      by (simp add: upt_conv_Cons)
    with c1 c2 l1 l2 show ?thesis by simp
  qed
qed

subsection \<open>What a \<open>List\<close> call sends and returns\<close>

lemma List_loop_sends_run:
  assumes "list_pages E (calls w) (list_input st) = run"
  shows "\<exists>rest. trace (snd (fst (List_loop E i (st, w)))) =
     trace w @ EvListVersions (list_input st) # run_events E run @ rest"
proof (cases "run_error run = None \<or> \<not> i < retryCnt st")
  case True
  from List_loop_over [OF assms True] show ?thesis by simp
next
  case False
  let ?st1 = "st\<lparr>listMarker := cursor_after (listMarker st) run\<rparr>"
  let ?w1 = "time_Sleep (retryInterval st)
     (w\<lparr>calls := Suc (calls w), trace := trace w @ EvListVersions (list_input st) # run_events E run\<rparr>)"
  from False have e: "run_error run \<noteq> None" and lt: "i < retryCnt st" by simp_all
  note s = List_loop_retry [OF assms e lt]
  from List_loop_first_request [of E "Suc i" ?st1 ?w1] obtain rest where
    "trace (snd (fst (List_loop E (Suc i) (?st1, ?w1)))) =
       trace ?w1 @ EvListVersions (list_input ?st1) # rest"
    by blast
  then have "trace (snd (fst (List_loop E i (st, w)))) =
      trace w @ EvListVersions (list_input st) # run_events E run
        @ (EvSleep (retryInterval st) # EvListVersions (list_input ?st1) # rest)"
    by (simp add: s time_Sleep_def emit_def)
  then show ?thesis by blast
qed

lemma List_loop_sent_run:
  assumes "list_pages E (calls w) (list_input st) = run"
  shows "\<exists>more. sent (trace (snd (fst (List_loop E i (st, w))))) =
     sent (trace w)
       @ concat (map (\<lambda>p. map (version_object E) (lvo_Versions p)) (run_pages run)) @ more"
proof -
  from List_loop_sends_run [OF assms, of i] obtain rest where
    "trace (snd (fst (List_loop E i (st, w)))) =
       trace w @ EvListVersions (list_input st) # run_events E run @ rest"
    by blast
  then have "sent (trace (snd (fst (List_loop E i (st, w))))) =
      sent (trace w)
        @ concat (map (\<lambda>p. map (version_object E) (lvo_Versions p)) (run_pages run)) @ sent rest"
    by (simp add: sent_append sent_Cons sent_run_events)
  then show ?thesis by blast
qed

lemma List_loop_result_is_transport:
  "\<exists>st_last. snd (List_loop E i (st, w)) =
     run_error (list_pages E (calls (snd (fst (List_loop E i (st, w)))) - 1) (list_input st_last))"
proof (induction n \<equiv> "retryCnt st - i" arbitrary: i st w)
  case 0
  then have "run_error (list_pages E (calls w) (list_input st)) = None \<or> \<not> i < retryCnt st"
    by simp
  from List_loop_over [OF refl this] show ?case by (intro exI [of _ st]) simp
next
  case (Suc n)
  define run where "run = list_pages E (calls w) (list_input st)"
  show ?case
  proof (cases "run_error run")
    case None
    then have "run_error run = None \<or> \<not> i < retryCnt st" by simp
    from List_loop_over [OF run_def [symmetric] this] show ?thesis
      by (intro exI [of _ st]) (simp add: run_def)
  next
    case (Some e)
    let ?st1 = "st\<lparr>listMarker := cursor_after (listMarker st) run\<rparr>"
    let ?w1 = "time_Sleep (retryInterval st)
       (w\<lparr>calls := Suc (calls w), trace := trace w @ EvListVersions (list_input st) # run_events E run\<rparr>)"
    from Suc.hyps(2) have lt: "i < retryCnt st" and n: "n = retryCnt ?st1 - Suc i" by simp_all
    from Some have "run_error run \<noteq> None" by simp
    note s = List_loop_retry [OF run_def [symmetric] this lt]
    from Suc.hyps(1) [OF n, of ?w1] show ?thesis
      by (simp add: s)
  qed
qed

text \<open>
  What a paging call does with the cursor: the first request carries the client's cursor,
  every follow-up page request comes directly after the cursor has been written from
  the \<open>VersionIdMarker\<close> of the page just processed, and when the call fails with
  attempts left, the first request of the next paging call carries the
  \<open>VersionIdMarker\<close> of the last page processed (the cursor as it was, when none was).
\<close>

lemma paging_call_cursor_and_retry:
  assumes "list_pages E (calls w) (list_input st) = run"
  shows "lvi_VersionIdMarker (list_input st) = listMarker st
     \<and> ListObjectVersionsPagesWithContext E (list_input st) (listObjectsFn E) (st, w) =
         ((st\<lparr>listMarker := cursor_after (listMarker st) run\<rparr>,
           w\<lparr>calls := Suc (calls w),
             trace := trace w @ EvListVersions (list_input st) # run_events E run\<rparr>),
          run_error run)
     \<and> cursor_written_before_next_page (EvListVersions (list_input st)) (run_events E run)
     \<and> (run_error run \<noteq> None \<and> i < retryCnt st \<longrightarrow>
          (\<exists>rest. trace (snd (fst (List_loop E i (st, w)))) =
             trace w @ EvListVersions (list_input st) # run_events E run
               @ EvSleep (retryInterval st)
               # EvListVersions
                   ((list_input st)\<lparr>lvi_VersionIdMarker := cursor_after (listMarker st) run\<rparr>)
               # rest))"
proof (intro conjI impI)
  show "lvi_VersionIdMarker (list_input st) = listMarker st"
    by (simp add: list_input_def)
  show "ListObjectVersionsPagesWithContext E (list_input st) (listObjectsFn E) (st, w) =
      ((st\<lparr>listMarker := cursor_after (listMarker st) run\<rparr>,
        w\<lparr>calls := Suc (calls w),
          trace := trace w @ EvListVersions (list_input st) # run_events E run\<rparr>),
       run_error run)"
    using assms by (simp add: paging_call)
  show "cursor_written_before_next_page (EvListVersions (list_input st)) (run_events E run)"
    by (rule cursor_written_run_events)
next
  assume a: "run_error run \<noteq> None \<and> i < retryCnt st"
  let ?st1 = "st\<lparr>listMarker := cursor_after (listMarker st) run\<rparr>"
  let ?w1 = "time_Sleep (retryInterval st)
     (w\<lparr>calls := Suc (calls w), trace := trace w @ EvListVersions (list_input st) # run_events E run\<rparr>)"
  from a have e: "run_error run \<noteq> None" and lt: "i < retryCnt st" by simp_all
  note s = List_loop_retry [OF assms e lt]
  from List_loop_first_request [of E "Suc i" ?st1 ?w1] obtain rest where
    "trace (snd (fst (List_loop E (Suc i) (?st1, ?w1)))) =
       trace ?w1 @ EvListVersions (list_input ?st1) # rest"
    by blast
  then have "trace (snd (fst (List_loop E i (st, w)))) =
      trace w @ EvListVersions (list_input st) # run_events E run
        @ EvSleep (retryInterval st)
        # EvListVersions
            ((list_input st)\<lparr>lvi_VersionIdMarker := cursor_after (listMarker st) run\<rparr>)
        # rest"
    by (simp add: s time_Sleep_def emit_def list_input_cursor)
  then show "\<exists>rest. trace (snd (fst (List_loop E i (st, w)))) =
      trace w @ EvListVersions (list_input st) # run_events E run
        @ EvSleep (retryInterval st)
        # EvListVersions
            ((list_input st)\<lparr>lvi_VersionIdMarker := cursor_after (listMarker st) run\<rparr>)
        # rest"
    by blast
qed

subsection \<open>The scenarios, run\<close>

lemma sc_PutObject:
  "PutObject flaky_env sc_st sc_obj sc_world =
     Some (\<lparr>calls = 3,
        trace = [EvPutObject (put_input flaky_env sc_st sc_obj ''old'' ''k''), EvSleep 10,
                 EvPutObject (put_input flaky_env sc_st sc_obj ''old'' ''k''), EvSleep 10,
                 EvPutObject (put_input flaky_env sc_st sc_obj ''old'' ''k'')]\<rparr>, None)"
  by (simp add: PutObject_def PutObject_loop.simps PutObjectWithContext_def
      flaky_env_def sc_st_def NewS3vStorage_def sc_world_def sc_obj_def
      remote_call_def time_Sleep_def emit_def)

lemma sc_GetObjectMeta:
  "GetObjectMeta flaky_env sc_st sc_obj sc_world =
     ((meta_update flaky_env sc_head_out sc_obj,
       \<lparr>calls = 3,
        trace = [EvHeadObject (head_input sc_st sc_obj), EvSleep 10,
                 EvHeadObject (head_input sc_st sc_obj), EvSleep 10,
                 EvHeadObject (head_input sc_st sc_obj)]\<rparr>), None)"
  by (simp add: GetObjectMeta_def GetObjectMeta_loop.simps HeadObjectWithContext_def
      meta_update_def flaky_env_def sc_st_def NewS3vStorage_def sc_world_def
      remote_call_def time_Sleep_def emit_def)

lemma sc_GetObjectContent:
  "GetObjectContent flaky_env sc_st sc_obj sc_world =
     Some ((content_update flaky_env (sc_get_out (Some (''data'', None))) ''data'' sc_obj,
       \<lparr>calls = 3,
        trace = [EvGetObject (get_input sc_st sc_obj), EvSleep 10,
                 EvGetObject (get_input sc_st sc_obj), EvLimit FakeBucket 2, EvSleep 10,
                 EvGetObject (get_input sc_st sc_obj), EvLimit FakeBucket 4]\<rparr>), None)"
  by (simp add: GetObjectContent_def GetObjectContent_loop.simps GetObjectWithContext_def
      content_update_def flaky_env_def sc_st_def NewS3vStorage_def sc_world_def sc_get_out_def
      remote_call_def time_Sleep_def emit_def io_Copy_ratelimited_def Int64Value_def)

lemma sc_GetObjectContent_drain_fails_first:
  "GetObjectContent broken_body_env sc_st sc_obj sc_world =
     Some ((content_update broken_body_env (sc_get_out (Some (''data'', None))) ''data'' sc_obj,
       \<lparr>calls = 2,
        trace = [EvGetObject (get_input sc_st sc_obj), EvLimit FakeBucket 2, EvSleep 10,
                 EvGetObject (get_input sc_st sc_obj), EvLimit FakeBucket 4]\<rparr>), None)"
  by (simp add: GetObjectContent_def GetObjectContent_loop.simps GetObjectWithContext_def
      content_update_def broken_body_env_def sc_st_def NewS3vStorage_def sc_world_def
      sc_get_out_def remote_call_def time_Sleep_def emit_def io_Copy_ratelimited_def
      Int64Value_def)

lemma sc_GetObjectContent_failing:
  "GetObjectContent failing_env sc_st sc_obj sc_world =
     Some ((sc_obj,
       \<lparr>calls = 4,
        trace = [EvGetObject (get_input sc_st sc_obj), EvLimit FakeBucket 2, EvSleep 10,
                 EvGetObject (get_input sc_st sc_obj), EvSleep 10,
                 EvGetObject (get_input sc_st sc_obj), EvSleep 10,
                 EvGetObject (get_input sc_st sc_obj)]\<rparr>), Some (err_no 3))"
  by (simp add: GetObjectContent_def GetObjectContent_loop.simps GetObjectWithContext_def
      failing_env_def sc_st_def NewS3vStorage_def sc_world_def
      sc_get_out_def remote_call_def time_Sleep_def emit_def io_Copy_ratelimited_def
      Int64Value_def numeral_3_eq_3)

lemma sc_List_echo:
  "List_s3v echo_env (sc_st, sc_world) =
     ((sc_st\<lparr>listMarker := Some ''v1''\<rparr>,
       \<lparr>calls = 2,
        trace =
          [EvListVersions (list_input sc_st),
           EvSend (version_object echo_env echo_version1),
           EvSetMarker None, EvNextPage, EvSleep 10,
           EvListVersions (list_input sc_st),
           EvSend (version_object echo_env echo_version1),
           EvSetMarker None, EvNextPage,
           EvSend (version_object echo_env echo_version2),
           EvSetMarker (Some ''v1'')]\<rparr>), None)"
proof -
  have m0: "listMarker sc_st = None" "retryCnt sc_st = 3" "retryInterval sc_st = 10"
    "calls sc_world = 0" "trace sc_world = []"
    by (simp_all add: sc_st_def NewS3vStorage_def sc_world_def)
  have i0: "lvi_VersionIdMarker (list_input sc_st) = None"
    by (simp add: list_input_def m0)
  have same: "sc_st\<lparr>listMarker := None\<rparr> = sc_st"
    by (simp add: sc_st_def NewS3vStorage_def)
  let ?run0 = "PageMore (echo_page1 (list_input sc_st)) (PageFail ''timeout'')"
  let ?run1 = "PageMore (echo_page1 (list_input sc_st)) (PageLast echo_page2)"
  have r0: "list_pages echo_env (calls sc_world) (list_input sc_st) = ?run0"
    by (simp add: echo_env_def i0 m0)
  have c0: "cursor_after None ?run0 = None"
    by (simp add: cursor_after_def echo_page1_def i0)
  let ?w1 = "time_Sleep (retryInterval sc_st)
      (sc_world\<lparr>calls := Suc (calls sc_world),
         trace := trace sc_world @ EvListVersions (list_input sc_st) # run_events echo_env ?run0\<rparr>)"
  have s0: "List_loop echo_env 0 (sc_st, sc_world) = List_loop echo_env (Suc 0) (sc_st, ?w1)"
    using List_loop_retry [OF r0, of 0] by (simp add: m0 c0 same)
  have r1: "list_pages echo_env (calls ?w1) (list_input sc_st) = ?run1"
    by (simp add: echo_env_def i0 m0 time_Sleep_def emit_def)
  have c1: "cursor_after None ?run1 = Some ''v1''"
    by (simp add: cursor_after_def echo_page2_def)
  from List_loop_over [OF r1, of "Suc 0"] show ?thesis
    by (simp add: List_s3v_def s0 m0 i0 time_Sleep_def emit_def page_events_def
        cursor_after_def echo_page1_def echo_page2_def)
qed


section \<open>The claims\<close>

text \<open>
  C3. For each of the five operations and every retry count: when the wrapped remote
  call fails on exactly the first \<open>k\<close> attempts, \<open>k\<close> at most the retry count, and then
  succeeds, the operation returns without error after \<open>k + 1\<close> attempts (so at most
  retry count plus one), and its schedule is \<open>k\<close> times an attempt followed by one sleep
  of the retry interval, and then the last attempt: exactly \<open>k\<close> sleeps, one between
  each two consecutive attempts. An attempt of \<open>GetObjectContent\<close> fails when its
  request or the draining of its body fails; an attempt of \<open>List\<close> is one paging call.
\<close>

theorem retry_then_success:
  assumes "k \<le> retryCnt st"
  shows
    "(Content obj = Some c \<and> Key obj = Some key
        \<and> (\<forall>j<k. put_object E (calls w + j) (put_input E st obj c key) \<noteq> None)
        \<and> put_object E (calls w + k) (put_input E st obj c key) = None
      \<longrightarrow> (\<exists>w'. PutObject E st obj w = Some (w', None) \<and> calls w' = calls w + Suc k
            \<and> schedule (trace w') =
                schedule (trace w) @ failed_rounds k (retryInterval st) @ [Attempt]))
   \<and> ((\<forall>j<k. delete_object E (calls w + j) (delete_input st obj) \<noteq> None)
        \<and> delete_object E (calls w + k) (delete_input st obj) = None
      \<longrightarrow> (\<exists>w'. DeleteObject E st obj w = (w', None) \<and> calls w' = calls w + Suc k
            \<and> schedule (trace w') =
                schedule (trace w) @ failed_rounds k (retryInterval st) @ [Attempt]))
   \<and> ((\<forall>j<k. snd (head_object E (calls w + j) (head_input st obj)) \<noteq> None)
        \<and> snd (head_object E (calls w + k) (head_input st obj)) = None
      \<longrightarrow> (\<exists>obj' w'. GetObjectMeta E st obj w = ((obj', w'), None) \<and> calls w' = calls w + Suc k
            \<and> schedule (trace w') =
                schedule (trace w) @ failed_rounds k (retryInterval st) @ [Attempt]))
   \<and> ((\<forall>j<k. get_attempt_error (get_object E (calls w + j) (get_input st obj)) \<noteq> None)
        \<and> get_attempt_ok (get_object E (calls w + k) (get_input st obj))
      \<longrightarrow> (\<exists>obj' w'. GetObjectContent E st obj w = Some ((obj', w'), None)
            \<and> calls w' = calls w + Suc k
            \<and> schedule (trace w') =
                schedule (trace w) @ failed_rounds k (retryInterval st) @ [Attempt]))
   \<and> ((\<forall>j<k. \<forall>inp. run_error (list_pages E (calls w + j) inp) \<noteq> None)
        \<and> (\<forall>inp. run_error (list_pages E (calls w + k) inp) = None)
      \<longrightarrow> (\<exists>st' w'. List_s3v E (st, w) = ((st', w'), None) \<and> calls w' = calls w + Suc k
            \<and> schedule (trace w') =
                schedule (trace w) @ failed_rounds k (retryInterval st) @ [Attempt]))"
  using PutObject_retry_then_success [OF assms, of obj c key E w]
    DeleteObject_retry_then_success [OF assms, of E w obj]
    GetObjectMeta_retry_then_success [OF assms, of E w obj]
    GetObjectContent_retry_then_success [OF assms, of E w obj]
    List_retry_then_success [OF assms, of E w]
  by blast

theorem retry_then_success_witness:
  "(2::nat) \<le> retryCnt sc_st
   \<and> (\<exists>w'. PutObject flaky_env sc_st sc_obj sc_world = Some (w', None) \<and> calls w' = 3
        \<and> schedule (trace w') = [Attempt, Sleep 10, Attempt, Sleep 10, Attempt])
   \<and> (\<exists>w'. DeleteObject flaky_env sc_st sc_obj sc_world = (w', None) \<and> calls w' = 3
        \<and> schedule (trace w') = [Attempt, Sleep 10, Attempt, Sleep 10, Attempt])
   \<and> (\<exists>obj' w'. GetObjectMeta flaky_env sc_st sc_obj sc_world = ((obj', w'), None) \<and> calls w' = 3
        \<and> schedule (trace w') = [Attempt, Sleep 10, Attempt, Sleep 10, Attempt])
   \<and> (\<exists>obj' w'. GetObjectContent flaky_env sc_st sc_obj sc_world = Some ((obj', w'), None)
        \<and> calls w' = 3
        \<and> schedule (trace w') = [Attempt, Sleep 10, Attempt, Sleep 10, Attempt])
   \<and> (\<exists>st' w'. List_s3v flaky_env (sc_st, sc_world) = ((st', w'), None) \<and> calls w' = 3
        \<and> schedule (trace w') = [Attempt, Sleep 10, Attempt, Sleep 10, Attempt])"
proof -
  have k: "(2::nat) \<le> retryCnt sc_st"
    by (simp add: sc_st_def NewS3vStorage_def)
  have fr: "failed_rounds 2 10 = [Attempt, Sleep 10, Attempt, Sleep 10]"
    by (simp add: failed_rounds_def numeral_2_eq_2)
  have s0: "schedule (trace sc_world) = []" "calls sc_world = 0"
    "retryInterval sc_st = 10"
    by (simp_all add: sc_world_def schedule_def sc_st_def NewS3vStorage_def)
  show ?thesis
    using k retry_then_success [OF k, of sc_obj "''old''" "''k''" flaky_env sc_world]
    by (simp add: fr s0 flaky_env_def sc_obj_def sc_get_out_def
        get_attempt_error_def get_attempt_ok_def Int64Value_def)
qed

text \<open>
  C4. For each of the five operations and every retry count \<open>N\<close>: when the wrapped
  remote call fails on every attempt, attempt number \<open>j\<close> (from 0) with the error \<open>e j\<close>,
  the operation returns exactly \<open>e N\<close>, the error of attempt \<open>N + 1\<close>, as it is, after
  \<open>N + 1\<close> attempts and \<open>N\<close> sleeps of the retry interval, one after each attempt but
  the last. \<open>GetObjectContent\<close> and \<open>GetObjectMeta\<close> leave the object as it was.
\<close>

theorem retries_exhausted:
  "(Content obj = Some c \<and> Key obj = Some key
      \<and> (\<forall>j\<le>retryCnt st. put_object E (calls w + j) (put_input E st obj c key) = Some (e j))
    \<longrightarrow> (\<exists>w'. PutObject E st obj w = Some (w', Some (e (retryCnt st)))
          \<and> calls w' = calls w + Suc (retryCnt st)
          \<and> schedule (trace w') =
              schedule (trace w) @ failed_rounds (retryCnt st) (retryInterval st) @ [Attempt]))
   \<and> ((\<forall>j\<le>retryCnt st. delete_object E (calls w + j) (delete_input st obj) = Some (e j))
    \<longrightarrow> (\<exists>w'. DeleteObject E st obj w = (w', Some (e (retryCnt st)))
          \<and> calls w' = calls w + Suc (retryCnt st)
          \<and> schedule (trace w') =
              schedule (trace w) @ failed_rounds (retryCnt st) (retryInterval st) @ [Attempt]))
   \<and> ((\<forall>j\<le>retryCnt st. snd (head_object E (calls w + j) (head_input st obj)) = Some (e j))
    \<longrightarrow> (\<exists>w'. GetObjectMeta E st obj w = ((obj, w'), Some (e (retryCnt st)))
          \<and> calls w' = calls w + Suc (retryCnt st)
          \<and> schedule (trace w') =
              schedule (trace w) @ failed_rounds (retryCnt st) (retryInterval st) @ [Attempt]))
   \<and> ((\<forall>j\<le>retryCnt st.
          get_attempt_error (get_object E (calls w + j) (get_input st obj)) = Some (e j))
    \<longrightarrow> (\<exists>w'. GetObjectContent E st obj w = Some ((obj, w'), Some (e (retryCnt st)))
          \<and> calls w' = calls w + Suc (retryCnt st)
          \<and> schedule (trace w') =
              schedule (trace w) @ failed_rounds (retryCnt st) (retryInterval st) @ [Attempt]))
   \<and> ((\<forall>j\<le>retryCnt st. \<forall>inp. run_error (list_pages E (calls w + j) inp) = Some (e j))
    \<longrightarrow> (\<exists>st' w'. List_s3v E (st, w) = ((st', w'), Some (e (retryCnt st)))
          \<and> calls w' = calls w + Suc (retryCnt st)
          \<and> schedule (trace w') =
              schedule (trace w) @ failed_rounds (retryCnt st) (retryInterval st) @ [Attempt]))"
  using PutObject_retries_exhausted [of obj c key st E w e]
    DeleteObject_retries_exhausted [of st E w obj e]
    GetObjectMeta_retries_exhausted [of st E w obj e]
    GetObjectContent_retries_exhausted [of st E w obj e]
    List_retries_exhausted [of st E w e]
  by blast

theorem retries_exhausted_witness:
  "(\<exists>w'. PutObject failing_env sc_st sc_obj sc_world = Some (w', Some ''error III'')
        \<and> calls w' = 4
        \<and> schedule (trace w') =
            [Attempt, Sleep 10, Attempt, Sleep 10, Attempt, Sleep 10, Attempt])
   \<and> (\<exists>w'. DeleteObject failing_env sc_st sc_obj sc_world = (w', Some ''error III'')
        \<and> calls w' = 4
        \<and> schedule (trace w') =
            [Attempt, Sleep 10, Attempt, Sleep 10, Attempt, Sleep 10, Attempt])
   \<and> (\<exists>w'. GetObjectMeta failing_env sc_st sc_obj sc_world = ((sc_obj, w'), Some ''error III'')
        \<and> calls w' = 4
        \<and> schedule (trace w') =
            [Attempt, Sleep 10, Attempt, Sleep 10, Attempt, Sleep 10, Attempt])
   \<and> (\<exists>w'. GetObjectContent failing_env sc_st sc_obj sc_world
          = Some ((sc_obj, w'), Some ''error III'')
        \<and> calls w' = 4
        \<and> schedule (trace w') =
            [Attempt, Sleep 10, Attempt, Sleep 10, Attempt, Sleep 10, Attempt])
   \<and> (\<exists>st' w'. List_s3v failing_env (sc_st, sc_world) = ((st', w'), Some ''error III'')
        \<and> calls w' = 4
        \<and> schedule (trace w') =
            [Attempt, Sleep 10, Attempt, Sleep 10, Attempt, Sleep 10, Attempt])"
proof -
  have fr: "failed_rounds 3 10 = [Attempt, Sleep 10, Attempt, Sleep 10, Attempt, Sleep 10]"
    by (simp add: failed_rounds_def numeral_3_eq_3)
  have s0: "schedule (trace sc_world) = []" "calls sc_world = 0"
    "retryInterval sc_st = 10" "retryCnt sc_st = 3"
    by (simp_all add: sc_world_def schedule_def sc_st_def NewS3vStorage_def)
  have e3: "err_no 3 = ''error III''"
    by (simp add: err_no_def numeral_3_eq_3)
  show ?thesis
    using retries_exhausted [of sc_obj "''old''" "''k''" sc_st failing_env sc_world err_no]
    by (simp add: fr s0 e3 failing_env_def sc_obj_def sc_get_out_def
        get_attempt_error_def Int64Value_def)
qed

text \<open>
  C7. A call of \<open>GetObjectMeta\<close> that returns without error has set \<open>ContentType\<close>,
  \<open>ContentDisposition\<close>, \<open>ContentEncoding\<close>, \<open>ContentLanguage\<close>, \<open>ETag\<close> (through
  \<open>strongEtag\<close>), \<open>Metadata\<close>, \<open>Mtime\<close> and \<open>CacheControl\<close> from the answer to its last
  head request, which was answered without error, and has left \<open>Content\<close>, \<open>Key\<close>,
  \<open>VersionId\<close> and \<open>IsLatest\<close> (and \<open>ACL\<close>) as they were.
\<close>

theorem GetObjectMeta_populates_and_frames:
  assumes "GetObjectMeta E st obj w = ((obj', w'), None)"
  shows "\<exists>result. head_object E (calls w' - 1) (head_input st obj) = (result, None)
     \<and> ContentType obj' = hoo_ContentType result
     \<and> ContentDisposition obj' = hoo_ContentDisposition result
     \<and> ContentEncoding obj' = hoo_ContentEncoding result
     \<and> ContentLanguage obj' = hoo_ContentLanguage result
     \<and> ETag obj' = strongEtag E (hoo_ETag result)
     \<and> Metadata obj' = hoo_Metadata result
     \<and> Mtime obj' = hoo_LastModified result
     \<and> CacheControl obj' = hoo_CacheControl result
     \<and> Content obj' = Content obj \<and> Key obj' = Key obj \<and> VersionId obj' = VersionId obj
     \<and> IsLatest obj' = IsLatest obj \<and> ACL obj' = ACL obj"
proof -
  from assms have "GetObjectMeta_loop E st (head_input st obj) 0 obj w = ((obj', w'), None)"
    by (simp add: GetObjectMeta_def)
  from GetObjectMeta_loop_success [OF this] obtain result where
    "head_object E (calls w' - 1) (head_input st obj) = (result, None)"
    "obj' = meta_update E result obj"
    by auto
  then show ?thesis
    by (intro exI [of _ result]) (simp add: meta_update_def)
qed

theorem GetObjectMeta_populates_and_frames_witness:
  "\<exists>obj' w'. GetObjectMeta flaky_env sc_st sc_obj sc_world = ((obj', w'), None)
     \<and> ContentType obj' = Some ''text/plain'' \<and> ETag obj' = Some ''e1''
     \<and> Metadata obj' = [(''a'', ''b'')] \<and> Mtime obj' = Some 100
     \<and> Content obj' = Some ''old'' \<and> Key obj' = Some ''k'' \<and> VersionId obj' = Some ''v1''
     \<and> IsLatest obj' = Some True"
proof -
  let ?obj' = "meta_update flaky_env sc_head_out sc_obj"
  have "ContentType ?obj' = Some ''text/plain'' \<and> ETag ?obj' = Some ''e1''
     \<and> Metadata ?obj' = [(''a'', ''b'')] \<and> Mtime ?obj' = Some 100
     \<and> Content ?obj' = Some ''old'' \<and> Key ?obj' = Some ''k'' \<and> VersionId ?obj' = Some ''v1''
     \<and> IsLatest ?obj' = Some True"
    using GetObjectMeta_populates_and_frames [OF sc_GetObjectMeta]
    by (simp add: flaky_env_def sc_head_out_def sc_obj_def)
  with sc_GetObjectMeta show ?thesis by blast
qed

text \<open>
  C9. \<open>PutObject\<close> dereferences \<open>obj.Content\<close> and \<open>obj.Key\<close> before its first remote
  call: when either is \<open>nil\<close> the call panics, it returns neither an error nor \<open>nil\<close>
  and reaches no remote call; when both are present it returns.
\<close>

theorem PutObject_needs_Content_and_Key:
  "(Content obj = None \<or> Key obj = None \<longrightarrow> PutObject E st obj w = None)
   \<and> (Content obj \<noteq> None \<and> Key obj \<noteq> None \<longrightarrow> PutObject E st obj w \<noteq> None)"
  by (auto simp: PutObject_def split: option.splits)

theorem PutObject_needs_Content_and_Key_witness:
  "PutObject flaky_env sc_st (sc_obj\<lparr>Content := None\<rparr>) sc_world = None
   \<and> PutObject flaky_env sc_st (sc_obj\<lparr>Key := None\<rparr>) sc_world = None
   \<and> PutObject flaky_env sc_st sc_obj sc_world \<noteq> None"
  using PutObject_needs_Content_and_Key [of "sc_obj\<lparr>Content := None\<rparr>" flaky_env sc_st sc_world]
    PutObject_needs_Content_and_Key [of "sc_obj\<lparr>Key := None\<rparr>" flaky_env sc_st sc_world]
    PutObject_needs_Content_and_Key [of sc_obj flaky_env sc_st sc_world]
  by (simp add: sc_obj_def)

text \<open>
  C8. Every upload body that \<open>PutObject\<close> hands to the remote store is the reader of
  the object's content wrapped by the limiter of the client's bucket. Whatever way a call
  of \<open>GetObjectContent\<close> returns, with \<open>nil\<close> or with an error, the uses of a limiter it
  has made are exactly one for each attempt whose request was answered with a body, for
  the bytes that body delivered, and each through the client's bucket; when it returns
  \<open>nil\<close> the last use is the one for the content it stores. \<open>GetObjectMeta\<close> and
  \<open>DeleteObject\<close> pass nothing through any limiter, whatever the remote store answers.
\<close>

theorem content_streams_are_rate_limited:
  "(PutObject E st obj w = Some (w', e) \<longrightarrow>
      (\<exists>c. Content obj = Some c \<and> calls w < calls w'
         \<and> put_bodies (trace w') =
             put_bodies (trace w)
               @ replicate (calls w' - calls w) (RLReadSeeker (BytesReader c) (rlBucket st))))
   \<and> (GetObjectContent E st obj w = Some ((obj\<^sub>2, w\<^sub>2), e\<^sub>2) \<longrightarrow>
      calls w < calls w\<^sub>2
      \<and> limited (trace w\<^sub>2) =
          limited (trace w)
            @ concat (map (drain_use E st (get_input st obj)) [calls w..<calls w\<^sub>2])
      \<and> (\<forall>n. \<forall>x\<in>set (drain_use E st (get_input st obj) n). fst x = rlBucket st))
   \<and> (GetObjectContent E st obj w = Some ((obj', w''), None) \<longrightarrow>
      (\<exists>d pre. Content obj' = Some d
         \<and> limited (trace w'') = limited (trace w) @ pre @ [(rlBucket st, length d)]
         \<and> (\<forall>x\<in>set pre. fst x = rlBucket st)))
   \<and> limited (trace (snd (fst (GetObjectMeta E st obj w)))) = limited (trace w)
   \<and> limited (trace (fst (DeleteObject E st obj w))) = limited (trace w)"
proof (intro conjI impI allI)
  assume p: "PutObject E st obj w = Some (w', e)"
  then obtain c key where c: "Content obj = Some c" and k: "Key obj = Some key"
    by (auto simp: PutObject_def split: option.splits)
  with p have l: "PutObject_loop E st (put_input E st obj c key) 0 w = (w', e)"
    by (simp add: PutObject_def)
  from PutObject_loop_put_bodies [of w E st "put_input E st obj c key" 0] l c
  show "\<exists>c. Content obj = Some c \<and> calls w < calls w'
      \<and> put_bodies (trace w') =
          put_bodies (trace w)
            @ replicate (calls w' - calls w) (RLReadSeeker (BytesReader c) (rlBucket st))"
    by (simp add: put_input_def)
next
  assume "GetObjectContent E st obj w = Some ((obj\<^sub>2, w\<^sub>2), e\<^sub>2)"
  then have l: "GetObjectContent_loop E st (get_input st obj) 0 obj w = Some ((obj\<^sub>2, w\<^sub>2), e\<^sub>2)"
    by (simp add: GetObjectContent_def)
  from GetObjectContent_loop_limited [OF l] show "calls w < calls w\<^sub>2" by simp
  from GetObjectContent_loop_limited [OF l]
  show "limited (trace w\<^sub>2) =
      limited (trace w) @ concat (map (drain_use E st (get_input st obj)) [calls w..<calls w\<^sub>2])"
    by simp
next
  fix n
  show "\<forall>x\<in>set (drain_use E st (get_input st obj) n). fst x = rlBucket st"
    by (auto simp: drain_use_def split: prod.splits option.splits if_splits)
next
  assume "GetObjectContent E st obj w = Some ((obj', w''), None)"
  then have "GetObjectContent_loop E st (get_input st obj) 0 obj w = Some ((obj', w''), None)"
    by (simp add: GetObjectContent_def)
  from GetObjectContent_loop_success [OF this] obtain result d pre where
    "obj' = content_update E result d obj"
    "limited (trace w'') = limited (trace w) @ pre @ [(rlBucket st, length d)]"
    "\<forall>x\<in>set pre. fst x = rlBucket st"
    by auto
  then show "\<exists>d pre. Content obj' = Some d
      \<and> limited (trace w'') = limited (trace w) @ pre @ [(rlBucket st, length d)]
      \<and> (\<forall>x\<in>set pre. fst x = rlBucket st)"
    by (intro exI [of _ d] exI [of _ pre]) (simp add: content_update_def)
next
  show "limited (trace (snd (fst (GetObjectMeta E st obj w)))) = limited (trace w)"
    by (simp add: GetObjectMeta_def GetObjectMeta_loop_limited)
next
  show "limited (trace (fst (DeleteObject E st obj w))) = limited (trace w)"
    by (simp add: DeleteObject_def DeleteObject_loop_limited)
qed

theorem content_streams_are_rate_limited_witness:
  "(\<exists>w'. PutObject flaky_env sc_st sc_obj sc_world = Some (w', None)
      \<and> put_bodies (trace w') =
          [RLReadSeeker (BytesReader ''old'') FakeBucket,
           RLReadSeeker (BytesReader ''old'') FakeBucket,
           RLReadSeeker (BytesReader ''old'') FakeBucket])
   \<and> (\<exists>w'. GetObjectContent failing_env sc_st sc_obj sc_world = Some ((sc_obj, w'), Some (err_no 3))
      \<and> limited (trace w') = [(FakeBucket, 2)])
   \<and> (\<exists>obj' w'. GetObjectContent flaky_env sc_st sc_obj sc_world = Some ((obj', w'), None)
      \<and> Content obj' = Some ''data''
      \<and> limited (trace w') = [(FakeBucket, 2), (FakeBucket, 4)])
   \<and> limited (trace (snd (fst (GetObjectMeta flaky_env sc_st sc_obj sc_world)))) = []
   \<and> limited (trace (fst (DeleteObject flaky_env sc_st sc_obj sc_world))) = []"
proof -
  have s0: "trace sc_world = []" "calls sc_world = 0" "rlBucket sc_st = FakeBucket"
    by (simp_all add: sc_world_def sc_st_def NewS3vStorage_def)
  have c: "Content sc_obj = Some ''old''"
    by (simp add: sc_obj_def)
  let ?wf = "\<lparr>calls = 4,
      trace = [EvGetObject (get_input sc_st sc_obj), EvLimit FakeBucket 2, EvSleep 10,
               EvGetObject (get_input sc_st sc_obj), EvSleep 10,
               EvGetObject (get_input sc_st sc_obj), EvSleep 10,
               EvGetObject (get_input sc_st sc_obj)]\<rparr>"
  have du: "concat (map (drain_use failing_env sc_st (get_input sc_st sc_obj)) [0..<4])
      = [(FakeBucket, 2)]"
    by (simp add: drain_use_def failing_env_def sc_get_out_def Int64Value_def upt_rec s0)
  note f = content_streams_are_rate_limited
    [where E = failing_env and st = sc_st and obj = sc_obj and w = sc_world
       and obj\<^sub>2 = sc_obj and w\<^sub>2 = ?wf and e\<^sub>2 = "Some (err_no 3)"]
  from f [THEN conjunct2, THEN conjunct1, THEN mp, OF sc_GetObjectContent_failing]
  have "limited (trace ?wf) = limited [] @ concat (map (drain_use failing_env sc_st (get_input sc_st sc_obj)) [0..<4])"
    by (simp add: s0)
  then have 2: "limited (trace ?wf) = [(FakeBucket, 2)]"
    by (simp only: du) (simp add: limited_def)
  note t = content_streams_are_rate_limited
    [where E = flaky_env and st = sc_st and obj = sc_obj and w = sc_world and e = None
       and w' = "fst (the (PutObject flaky_env sc_st sc_obj sc_world))"
       and obj' = "fst (fst (the (GetObjectContent flaky_env sc_st sc_obj sc_world)))"
       and w'' = "snd (fst (the (GetObjectContent flaky_env sc_st sc_obj sc_world)))"]
  from t have "(\<exists>w'. PutObject flaky_env sc_st sc_obj sc_world = Some (w', None)
      \<and> put_bodies (trace w') =
          [RLReadSeeker (BytesReader ''old'') FakeBucket,
           RLReadSeeker (BytesReader ''old'') FakeBucket,
           RLReadSeeker (BytesReader ''old'') FakeBucket])
   \<and> (\<exists>obj' w'. GetObjectContent flaky_env sc_st sc_obj sc_world = Some ((obj', w'), None)
      \<and> Content obj' = Some ''data''
      \<and> limited (trace w') = [(FakeBucket, 2), (FakeBucket, 4)])
   \<and> limited (trace (snd (fst (GetObjectMeta flaky_env sc_st sc_obj sc_world)))) = []
   \<and> limited (trace (fst (DeleteObject flaky_env sc_st sc_obj sc_world))) = []"
    by (simp add: sc_PutObject sc_GetObjectContent s0 c limited_def content_update_def
         put_bodies_def put_input_def numeral_3_eq_3)
  with 2 sc_GetObjectContent_failing show ?thesis by blast
qed

text \<open>
  C5. Whatever percent-encoding the remote store applies to a key (whichever bytes it
  escapes, in upper or lower case digits, with a space as \<open>+\<close> or not), as long as it
  escapes the reserved bytes \<open>%\<close> and \<open>+\<close>: \<open>url.QueryUnescape\<close> gives back the
  original key byte for byte, without error, and that key is what \<open>List\<close> puts into
  the object it sends for the record.
\<close>

theorem key_roundtrip:
  assumes "esc CHR ''%''" and "esc CHR ''+''"
  shows "QueryUnescape (pct_encode esc upper sp key) = (key, None)
     \<and> (ov_Key ov = Some (pct_encode esc upper sp key) \<longrightarrow> Key (version_object E ov) = Some key)"
  using escape_error_pct_encode [where esc = esc, OF assms(1), of upper sp key]
    unescape_bytes_pct_encode [where esc = esc, OF assms, of upper sp key]
  by (simp add: QueryUnescape_def version_object_def StringValue_def)

theorem key_roundtrip_witness:
  "pct_encode (\<lambda>c. c \<in> set ''%+/'') True True ''a/b c%'' = ''a%2Fb+c%25''
   \<and> QueryUnescape ''a%2Fb+c%25'' = (''a/b c%'', None)
   \<and> map (\<lambda>ov. Key (version_object flaky_env ov)) (lvo_Versions sc_page1) = [Some ''a/b c%'']"
proof -
  have enc: "pct_encode (\<lambda>c. c \<in> set ''%+/'') True True ''a/b c%'' = ''a%2Fb+c%25''"
    by code_simp
  have esc: "CHR ''%'' \<in> set ''%+/''" "CHR ''+'' \<in> set ''%+/''"
    by simp_all
  note t = key_roundtrip [of "\<lambda>c. c \<in> set ''%+/''", OF esc,
      of True True "''a/b c%''" "hd (lvo_Versions sc_page1)" flaky_env]
  from t [unfolded enc] enc show ?thesis
    by (simp add: sc_page1_def)
qed

text \<open>
  C10. The object that \<open>List\<close> builds for a version record whose key does not decode
  has the empty string as its \<open>Key\<close>: the error of \<open>url.QueryUnescape\<close> is dropped. A
  \<open>List\<close> call, and every attempt of its loop, sends one object for every version record
  of every page its paging call processes, in order, whatever the keys are: no record is
  skipped. What \<open>List\<close> returns is what the paging transport reports for the last paging
  call and nothing else, so no error is ever reported for such a key; in particular a
  \<open>List\<close> whose paging meets no failure returns \<open>nil\<close> and has sent exactly the records of
  its pages. (The same holds of one run of \<open>listObjectsFn\<close> and of one paging call.)
\<close>

theorem undecodable_key_sent_with_empty_key:
  assumes "list_pages E (calls w) (list_input st) = run"
  shows "(\<forall>ov. snd (QueryUnescape (StringValue (ov_Key ov))) \<noteq> None \<longrightarrow>
            Key (version_object E ov) = Some [])
     \<and> (\<exists>more. sent (trace (snd (fst (List_s3v E (st, w))))) =
          sent (trace w)
            @ concat (map (\<lambda>p. map (version_object E) (lvo_Versions p)) (run_pages run)) @ more)
     \<and> (\<exists>more. sent (trace (snd (fst (List_loop E i (st, w))))) =
          sent (trace w)
            @ concat (map (\<lambda>p. map (version_object E) (lvo_Versions p)) (run_pages run)) @ more)
     \<and> (\<exists>st\<^sub>l. snd (List_s3v E (st, w)) =
          run_error (list_pages E (calls (snd (fst (List_s3v E (st, w)))) - 1) (list_input st\<^sub>l)))
     \<and> (\<exists>st\<^sub>l. snd (List_loop E i (st, w)) =
          run_error (list_pages E (calls (snd (fst (List_loop E i (st, w)))) - 1) (list_input st\<^sub>l)))
     \<and> (run_error run = None \<longrightarrow>
          snd (List_s3v E (st, w)) = None
          \<and> sent (trace (snd (fst (List_s3v E (st, w))))) =
              sent (trace w)
                @ concat (map (\<lambda>p. map (version_object E) (lvo_Versions p)) (run_pages run)))
     \<and> sent (trace (snd (fst (listObjectsFn E p lastPage (st, w))))) =
         sent (trace w) @ map (version_object E) (lvo_Versions p)
     \<and> snd (ListObjectVersionsPagesWithContext E (list_input st) (listObjectsFn E) (st, w)) =
         run_error run"
proof (intro conjI impI allI)
  fix ov :: ObjectVersion
  assume "snd (QueryUnescape (StringValue (ov_Key ov))) \<noteq> None"
  then show "Key (version_object E ov) = Some []"
    by (simp add: version_object_def QueryUnescape_error_empty)
next
  show "\<exists>more. sent (trace (snd (fst (List_s3v E (st, w))))) =
      sent (trace w)
        @ concat (map (\<lambda>p. map (version_object E) (lvo_Versions p)) (run_pages run)) @ more"
    using List_loop_sent_run [OF assms, of 0] by (simp add: List_s3v_def)
  show "\<exists>more. sent (trace (snd (fst (List_loop E i (st, w))))) =
      sent (trace w)
        @ concat (map (\<lambda>p. map (version_object E) (lvo_Versions p)) (run_pages run)) @ more"
    by (rule List_loop_sent_run [OF assms])
  show "\<exists>st\<^sub>l. snd (List_s3v E (st, w)) =
      run_error (list_pages E (calls (snd (fst (List_s3v E (st, w)))) - 1) (list_input st\<^sub>l))"
    using List_loop_result_is_transport [of E 0 st w] by (simp add: List_s3v_def)
  show "\<exists>st\<^sub>l. snd (List_loop E i (st, w)) =
      run_error (list_pages E (calls (snd (fst (List_loop E i (st, w)))) - 1) (list_input st\<^sub>l))"
    by (rule List_loop_result_is_transport)
  show "sent (trace (snd (fst (listObjectsFn E p lastPage (st, w))))) =
      sent (trace w) @ map (version_object E) (lvo_Versions p)"
    by (rule listObjectsFn_sent)
  show "snd (ListObjectVersionsPagesWithContext E (list_input st) (listObjectsFn E) (st, w)) =
      run_error run"
    using assms by (simp add: paging_call)
next
  assume ok: "run_error run = None"
  then have o: "run_error run = None \<or> \<not> 0 < retryCnt st" by simp
  from List_loop_over [OF assms o] ok show "snd (List_s3v E (st, w)) = None"
    by (simp add: List_s3v_def)
  from List_loop_over [OF assms o]
  show "sent (trace (snd (fst (List_s3v E (st, w))))) =
      sent (trace w)
        @ concat (map (\<lambda>p. map (version_object E) (lvo_Versions p)) (run_pages run))"
    by (simp add: List_s3v_def sent_append sent_Cons sent_run_events)
qed

theorem undecodable_key_sent_with_empty_key_witness:
  "snd (QueryUnescape ''%zz'') = Some (EscapeError ''%zz'')
   \<and> map ov_Key (lvo_Versions sc_page1 @ lvo_Versions sc_page2) = [Some ''a%2Fb+c%25'', Some ''%zz'']
   \<and> snd (List_s3v flaky_env (sc_st, \<lparr>calls = 2, trace = []\<rparr>)) = None
   \<and> map Key (sent (trace (snd (fst (List_s3v flaky_env (sc_st, \<lparr>calls = 2, trace = []\<rparr>))))))
       = [Some ''a/b c%'', Some []]"
proof -
  let ?w = "\<lparr>calls = 2, trace = []\<rparr>"
  have q1: "QueryUnescape ''a%2Fb+c%25'' = (''a/b c%'', None)"
    by code_simp
  have q2: "QueryUnescape ''%zz'' = ([], Some (EscapeError ''%zz''))"
    by code_simp
  have run: "list_pages flaky_env (calls ?w) (list_input sc_st) = PageMore sc_page1 (PageLast sc_page2)"
    by (simp add: flaky_env_def)
  have ok: "run_error (PageMore sc_page1 (PageLast sc_page2)) = None"
    by simp
  note t = undecodable_key_sent_with_empty_key [OF run, of 0 sc_page1 True]
  from t [THEN conjunct2, THEN conjunct2, THEN conjunct2, THEN conjunct2, THEN conjunct2,
      THEN conjunct1, THEN mp, OF ok]
  have r: "snd (List_s3v flaky_env (sc_st, ?w)) = None"
    and s: "sent (trace (snd (fst (List_s3v flaky_env (sc_st, ?w))))) =
      map (version_object flaky_env) (lvo_Versions sc_page1)
        @ map (version_object flaky_env) (lvo_Versions sc_page2)"
    by (simp_all add: sent_Nil)
  have k: "map Key (map (version_object flaky_env) (lvo_Versions sc_page1)
        @ map (version_object flaky_env) (lvo_Versions sc_page2)) = [Some ''a/b c%'', Some []]"
    by (simp add: sc_page1_def sc_page2_def version_object_def StringValue_def q1 q2)
  have v: "map ov_Key (lvo_Versions sc_page1 @ lvo_Versions sc_page2) = [Some ''a%2Fb+c%25'', Some ''%zz'']"
    by (simp add: sc_page1_def sc_page2_def)
  from r s k v q2 show ?thesis by simp
qed

text \<open>
  C6. When the paging call of an attempt of \<open>List\<close> meets no failing request up to a
  page that reports itself as the last one, \<open>List\<close> returns \<open>nil\<close> from that attempt.
  Its trace is the first request followed by the events of the run: for each page its
  records sent in the order of the page and the cursor written, then the request for the
  next page, and nothing after the last page. So the objects sent are the records of
  the pages in store order, there is exactly one page request for each page received,
  and the cursor is left at the last page's marker. (\<open>List_s3v\<close> is the loop at
  \<open>i = 0\<close>.)
\<close>

theorem List_returns_nil_after_last_page:
  assumes "list_pages E (calls w) (list_input st) = run" and "run_error run = None"
  shows "\<exists>st' w'. List_loop E i (st, w) = ((st', w'), None)
     \<and> calls w' = Suc (calls w)
     \<and> trace w' = trace w @ EvListVersions (list_input st) # run_events E run
     \<and> sent (trace w') =
         sent (trace w) @ concat (map (\<lambda>p. map (version_object E) (lvo_Versions p)) (run_pages run))
     \<and> page_requests (trace w') = page_requests (trace w) + length (run_pages run)
     \<and> listMarker st' = lvo_VersionIdMarker (last (run_pages run))"
proof -
  let ?st' = "st\<lparr>listMarker := cursor_after (listMarker st) run\<rparr>"
  let ?w' = "w\<lparr>calls := Suc (calls w),
      trace := trace w @ EvListVersions (list_input st) # run_events E run\<rparr>"
  from assms(2) have "run_error run = None \<or> \<not> i < retryCnt st" by simp
  from List_loop_over [OF assms(1) this] assms(2)
  have l: "List_loop E i (st, w) = ((?st', ?w'), None)" by simp
  have s: "sent (trace ?w') =
      sent (trace w) @ concat (map (\<lambda>p. map (version_object E) (lvo_Versions p)) (run_pages run))"
    by (simp add: sent_append sent_Cons sent_run_events)
  have "page_requests (EvListVersions (list_input st) # run_events E run) =
      Suc (page_requests (run_events E run))"
    by (simp add: page_requests_def)
  with page_requests_run_events [OF assms(2), of E]
  have r: "page_requests (trace ?w') = page_requests (trace w) + length (run_pages run)"
    by (simp add: page_requests_append)
  from assms(2) have "run_pages run \<noteq> []" by (cases run) simp_all
  then have m: "listMarker ?st' = lvo_VersionIdMarker (last (run_pages run))"
    by (simp add: cursor_after_def)
  from l s r m show ?thesis by simp
qed

theorem List_returns_nil_after_last_page_witness:
  "\<exists>st' w'. List_s3v flaky_env (sc_st, \<lparr>calls = 2, trace = []\<rparr>) = ((st', w'), None)
     \<and> calls w' = 3
     \<and> trace w' =
         EvListVersions (list_input sc_st)
           # map (\<lambda>ov. EvSend (version_object flaky_env ov)) (lvo_Versions sc_page1)
           @ EvSetMarker (Some ''m1'') # EvNextPage
           # map (\<lambda>ov. EvSend (version_object flaky_env ov)) (lvo_Versions sc_page2)
           @ [EvSetMarker (Some ''m2'')]
     \<and> sent (trace w') =
         map (version_object flaky_env) (lvo_Versions sc_page1)
           @ map (version_object flaky_env) (lvo_Versions sc_page2)
     \<and> page_requests (trace w') = 2
     \<and> listMarker st' = Some ''m2''"
proof -
  let ?w = "\<lparr>calls = 2, trace = []\<rparr>"
  have run: "list_pages flaky_env (calls ?w) (list_input sc_st) = PageMore sc_page1 (PageLast sc_page2)"
    by (simp add: flaky_env_def)
  have ok: "run_error (PageMore sc_page1 (PageLast sc_page2)) = None"
    by simp
  have m: "lvo_VersionIdMarker sc_page1 = Some ''m1''" "lvo_VersionIdMarker sc_page2 = Some ''m2''"
    by (simp_all add: sc_page1_def sc_page2_def)
  have z: "sent [] = []" "page_requests [] = 0"
    by (simp_all add: sent_def page_requests_def)
  from List_returns_nil_after_last_page [OF run ok, of 0]
  show ?thesis
    by (simp add: List_s3v_def m z page_events_def eval_nat_numeral)
qed

text \<open>
  C1, at a store that returns in each page's \<open>VersionIdMarker\<close> the marker of the request
  the page answers. The call starts without a cursor; the first page is processed and
  offers \<open>NextVersionIdMarker = v1\<close>; the paginator's request for the second page
  fails. The cursor written from the first page is its \<open>VersionIdMarker\<close>, which is
  \<open>nil\<close>, so the first request of the retried paging call is the very request the call
  began with: the listing restarts at its beginning and the record of the first page is
  sent a second time, where C1 has the retried call resume after the last page that was
  processed. The write of the cursor before each follow-up page request is as C1 says.
\<close>

theorem retry_after_first_page_restarts_listing:
  "lvi_VersionIdMarker (list_input sc_st) = None
   \<and> lvo_VersionIdMarker (echo_page1 (list_input sc_st)) = None
   \<and> lvo_NextVersionIdMarker (echo_page1 (list_input sc_st)) = Some ''v1''
   \<and> List_s3v echo_env (sc_st, sc_world) =
       ((sc_st\<lparr>listMarker := Some ''v1''\<rparr>,
         \<lparr>calls = 2,
          trace =
            [EvListVersions (list_input sc_st),
             EvSend (version_object echo_env echo_version1),
             EvSetMarker None, EvNextPage, EvSleep 10,
             EvListVersions (list_input sc_st),
             EvSend (version_object echo_env echo_version1),
             EvSetMarker None, EvNextPage,
             EvSend (version_object echo_env echo_version2),
             EvSetMarker (Some ''v1'')]\<rparr>), None)"
proof (intro conjI)
  show i0: "lvi_VersionIdMarker (list_input sc_st) = None"
    by (simp add: list_input_def sc_st_def NewS3vStorage_def)
  then show "lvo_VersionIdMarker (echo_page1 (list_input sc_st)) = None"
    by (simp add: echo_page1_def)
  show "lvo_NextVersionIdMarker (echo_page1 (list_input sc_st)) = Some ''v1''"
    by (simp add: echo_page1_def)
  show "List_s3v echo_env (sc_st, sc_world) =
      ((sc_st\<lparr>listMarker := Some ''v1''\<rparr>,
        \<lparr>calls = 2,
         trace =
           [EvListVersions (list_input sc_st),
            EvSend (version_object echo_env echo_version1),
            EvSetMarker None, EvNextPage, EvSleep 10,
            EvListVersions (list_input sc_st),
            EvSend (version_object echo_env echo_version1),
            EvSetMarker None, EvNextPage,
            EvSend (version_object echo_env echo_version2),
            EvSetMarker (Some ''v1'')]\<rparr>), None)"
    by (rule sc_List_echo)
qed

text \<open>
  C2, as the code has it. \<open>GetObjectContent\<close> has one retry loop with one counter for
  both phases. A failure while draining the body, with attempts left, sleeps and starts
  the next iteration of the whole loop: the counter goes up by one, the object is
  untouched and the bytes drained so far are dropped with their buffer; the iteration
  begins with a new get request. A call that returns without error has issued one get
  request for each attempt, and its \<open>Content\<close> is exactly the bytes of the body of the
  last request, so no byte is duplicated.
\<close>

theorem drain_failure_restarts_whole_attempt:
  "(get_object E (calls w) input = (result, None) \<and> 0 \<le> Int64Value (goo_ContentLength result)
      \<and> goo_Body result = Some (d, Some e) \<and> i < retryCnt st
    \<longrightarrow> GetObjectContent_loop E st input i obj w =
          GetObjectContent_loop E st input (Suc i) obj
            (time_Sleep (retryInterval st)
               (emit (EvLimit (rlBucket st) (length d)) (remote_call (EvGetObject input) w))))
   \<and> (GetObjectContent E st obj w = Some ((obj', w'), None)
    \<longrightarrow> (\<exists>last_result data. calls w < calls w'
          \<and> get_object E (calls w' - 1) (get_input st obj) = (last_result, None)
          \<and> goo_Body last_result = Some (data, None)
          \<and> Content obj' = Some data
          \<and> get_requests (trace w') =
              get_requests (trace w) @ replicate (calls w' - calls w) (get_input st obj)))"
proof (intro conjI impI)
  assume "get_object E (calls w) input = (result, None) \<and> 0 \<le> Int64Value (goo_ContentLength result)
      \<and> goo_Body result = Some (d, Some e) \<and> i < retryCnt st"
  then show "GetObjectContent_loop E st input i obj w =
      GetObjectContent_loop E st input (Suc i) obj
        (time_Sleep (retryInterval st)
           (emit (EvLimit (rlBucket st) (length d)) (remote_call (EvGetObject input) w)))"
    by (subst GetObjectContent_loop.simps)
      (simp add: GetObjectWithContext_def io_Copy_ratelimited_def)
next
  assume "GetObjectContent E st obj w = Some ((obj', w'), None)"
  then have "GetObjectContent_loop E st (get_input st obj) 0 obj w = Some ((obj', w'), None)"
    by (simp add: GetObjectContent_def)
  from GetObjectContent_loop_success [OF this] obtain r data where
    "calls w < calls w'" "get_object E (calls w' - 1) (get_input st obj) = (r, None)"
    "goo_Body r = Some (data, None)" "obj' = content_update E r data obj"
    "get_requests (trace w') =
       get_requests (trace w) @ replicate (calls w' - calls w) (get_input st obj)"
    by auto
  then show "\<exists>last_result data. calls w < calls w'
      \<and> get_object E (calls w' - 1) (get_input st obj) = (last_result, None)
      \<and> goo_Body last_result = Some (data, None)
      \<and> Content obj' = Some data
      \<and> get_requests (trace w') =
          get_requests (trace w) @ replicate (calls w' - calls w) (get_input st obj)"
    by (intro exI [of _ r] exI [of _ data]) (simp add: content_update_def)
qed

theorem drain_failure_restarts_whole_attempt_witness:
  "GetObjectContent_loop broken_body_env sc_st (get_input sc_st sc_obj) 0 sc_obj sc_world =
     GetObjectContent_loop broken_body_env sc_st (get_input sc_st sc_obj) 1 sc_obj
       \<lparr>calls = 1, trace = [EvGetObject (get_input sc_st sc_obj), EvLimit FakeBucket 2, EvSleep 10]\<rparr>
   \<and> (\<exists>obj' w'. GetObjectContent broken_body_env sc_st sc_obj sc_world = Some ((obj', w'), None)
        \<and> Content obj' = Some ''data''
        \<and> get_requests (trace w') = [get_input sc_st sc_obj, get_input sc_st sc_obj])"
proof -
  let ?obj' = "content_update broken_body_env (sc_get_out (Some (''data'', None))) ''data'' sc_obj"
  let ?w' = "\<lparr>calls = 2,
      trace = [EvGetObject (get_input sc_st sc_obj), EvLimit FakeBucket 2, EvSleep 10,
               EvGetObject (get_input sc_st sc_obj), EvLimit FakeBucket 4]\<rparr>"
  have h: "get_object broken_body_env (calls sc_world) (get_input sc_st sc_obj)
        = (sc_get_out (Some (''da'', Some ''reset'')), None)
      \<and> 0 \<le> Int64Value (goo_ContentLength (sc_get_out (Some (''da'', Some ''reset''))))
      \<and> goo_Body (sc_get_out (Some (''da'', Some ''reset''))) = Some (''da'', Some ''reset'')
      \<and> 0 < retryCnt sc_st"
    by (simp add: broken_body_env_def sc_world_def sc_get_out_def Int64Value_def sc_st_def
        NewS3vStorage_def)
  have s0: "retryInterval sc_st = 10" "rlBucket sc_st = FakeBucket"
    "calls sc_world = 0" "trace sc_world = []"
    by (simp_all add: sc_st_def NewS3vStorage_def sc_world_def)
  have w1: "time_Sleep (retryInterval sc_st)
       (emit (EvLimit (rlBucket sc_st) (length ''da''))
          (remote_call (EvGetObject (get_input sc_st sc_obj)) sc_world)) =
      \<lparr>calls = 1, trace = [EvGetObject (get_input sc_st sc_obj), EvLimit FakeBucket 2, EvSleep 10]\<rparr>"
    by (simp add: s0 time_Sleep_def emit_def remote_call_def sc_world_def)
  note t = drain_failure_restarts_whole_attempt
    [where E = broken_body_env and st = sc_st and obj = sc_obj and w = sc_world and i = 0
       and input = "get_input sc_st sc_obj"
       and result = "sc_get_out (Some (''da'', Some ''reset''))"
       and d = "''da''" and e = "''reset''" and obj' = ?obj' and w' = ?w']
  from t [THEN conjunct1, THEN mp, OF h]
  have 1: "GetObjectContent_loop broken_body_env sc_st (get_input sc_st sc_obj) 0 sc_obj sc_world =
      GetObjectContent_loop broken_body_env sc_st (get_input sc_st sc_obj) 1 sc_obj
        \<lparr>calls = 1, trace = [EvGetObject (get_input sc_st sc_obj), EvLimit FakeBucket 2, EvSleep 10]\<rparr>"
    by (simp only: w1 One_nat_def)
  from t [THEN conjunct2, THEN mp, OF sc_GetObjectContent_drain_fails_first]
  have 2: "Content ?obj' = Some ''data''
      \<and> get_requests (trace ?w') = [get_input sc_st sc_obj, get_input sc_st sc_obj]"
    by (simp add: content_update_def get_requests_def)
  from 1 2 sc_GetObjectContent_drain_fails_first show ?thesis by blast
qed

text \<open>
  C2, as it is stated, fails. The remote store answers the first get request without
  error, the body of that answer breaks after two bytes, and the call then issues the
  get request a second time: two get requests, where the statement allows one.
\<close>

theorem drain_failure_reissues_request_counterexample:
  "snd (get_object broken_body_env 0 (get_input sc_st sc_obj)) = None
   \<and> GetObjectContent broken_body_env sc_st sc_obj sc_world =
       Some ((content_update broken_body_env (sc_get_out (Some (''data'', None))) ''data'' sc_obj,
         \<lparr>calls = 2,
          trace = [EvGetObject (get_input sc_st sc_obj), EvLimit FakeBucket 2, EvSleep 10,
                   EvGetObject (get_input sc_st sc_obj), EvLimit FakeBucket 4]\<rparr>), None)
   \<and> get_requests [EvGetObject (get_input sc_st sc_obj), EvLimit FakeBucket 2, EvSleep 10,
                    EvGetObject (get_input sc_st sc_obj), EvLimit FakeBucket 4]
       = [get_input sc_st sc_obj, get_input sc_st sc_obj]"
proof (intro conjI)
  show "snd (get_object broken_body_env 0 (get_input sc_st sc_obj)) = None"
    by (simp add: broken_body_env_def)
  show "GetObjectContent broken_body_env sc_st sc_obj sc_world =
      Some ((content_update broken_body_env (sc_get_out (Some (''data'', None))) ''data'' sc_obj,
        \<lparr>calls = 2,
         trace = [EvGetObject (get_input sc_st sc_obj), EvLimit FakeBucket 2, EvSleep 10,
                  EvGetObject (get_input sc_st sc_obj), EvLimit FakeBucket 4]\<rparr>), None)"
    by (rule sc_GetObjectContent_drain_fails_first)
  show "get_requests [EvGetObject (get_input sc_st sc_obj), EvLimit FakeBucket 2, EvSleep 10,
                      EvGetObject (get_input sc_st sc_obj), EvLimit FakeBucket 4]
      = [get_input sc_st sc_obj, get_input sc_st sc_obj]"
    by (simp add: get_requests_def)
qed

end
